theory Spec2Isabelle
  imports Main "HOL-Library.Word"
begin

unbundle bit_operations_syntax

section \<open>Built-ins the miner calls\<close>

subsection \<open>SHA-256 (\<^verbatim>\<open>crypto.createHash('sha256')\<close>, as in FIPS 180-4)\<close>

text \<open>
  The miner hashes with Node's \<^verbatim>\<open>crypto\<close> module, which is not part of the repository.
  It is modelled here from the standard: 32-bit words, big-endian, 64 rounds per 512-bit
  block. A string is the list of the bytes that \<^verbatim>\<open>update\<close> feeds to the hash (the
  UTF-8 encoding of the JavaScript string).
\<close>

type_synonym w32 = "32 word"

type_synonym sha_state = "w32 \<times> w32 \<times> w32 \<times> w32 \<times> w32 \<times> w32 \<times> w32 \<times> w32"

definition rotr :: "nat \<Rightarrow> w32 \<Rightarrow> w32" where
  "rotr n x = drop_bit n x OR push_bit (32 - n) x"

definition Ch :: "w32 \<Rightarrow> w32 \<Rightarrow> w32 \<Rightarrow> w32" where
  "Ch x y z = (x AND y) XOR (NOT x AND z)"

definition Maj :: "w32 \<Rightarrow> w32 \<Rightarrow> w32 \<Rightarrow> w32" where
  "Maj x y z = (x AND y) XOR (x AND z) XOR (y AND z)"

definition Sigma0 :: "w32 \<Rightarrow> w32" where
  "Sigma0 x = rotr 2 x XOR rotr 13 x XOR rotr 22 x"

definition Sigma1 :: "w32 \<Rightarrow> w32" where
  "Sigma1 x = rotr 6 x XOR rotr 11 x XOR rotr 25 x"

definition sigma0 :: "w32 \<Rightarrow> w32" where
  "sigma0 x = rotr 7 x XOR rotr 18 x XOR drop_bit 3 x"

definition sigma1 :: "w32 \<Rightarrow> w32" where
  "sigma1 x = rotr 17 x XOR rotr 19 x XOR drop_bit 10 x"

definition K256 :: "w32 list" where
  "K256 =
    [0x428A2F98, 0x71374491, 0xB5C0FBCF, 0xE9B5DBA5, 0x3956C25B, 0x59F111F1, 0x923F82A4, 0xAB1C5ED5,
     0xD807AA98, 0x12835B01, 0x243185BE, 0x550C7DC3, 0x72BE5D74, 0x80DEB1FE, 0x9BDC06A7, 0xC19BF174,
     0xE49B69C1, 0xEFBE4786, 0x0FC19DC6, 0x240CA1CC, 0x2DE92C6F, 0x4A7484AA, 0x5CB0A9DC, 0x76F988DA,
     0x983E5152, 0xA831C66D, 0xB00327C8, 0xBF597FC7, 0xC6E00BF3, 0xD5A79147, 0x06CA6351, 0x14292967,
     0x27B70A85, 0x2E1B2138, 0x4D2C6DFC, 0x53380D13, 0x650A7354, 0x766A0ABB, 0x81C2C92E, 0x92722C85,
     0xA2BFE8A1, 0xA81A664B, 0xC24B8B70, 0xC76C51A3, 0xD192E819, 0xD6990624, 0xF40E3585, 0x106AA070,
     0x19A4C116, 0x1E376C08, 0x2748774C, 0x34B0BCB5, 0x391C0CB3, 0x4ED8AA4A, 0x5B9CCA4F, 0x682E6FF3,
     0x748F82EE, 0x78A5636F, 0x84C87814, 0x8CC70208, 0x90BEFFFA, 0xA4506CEB, 0xBEF9A3F7, 0xC67178F2]"

definition H256 :: sha_state where
  "H256 = (0x6A09E667, 0xBB67AE85, 0x3C6EF372, 0xA54FF53A,
           0x510E527F, 0x9B05688C, 0x1F83D9AB, 0x5BE0CD19)"

text \<open>Padding: the byte 0x80, zero bytes up to 56 modulo 64, the bit length on 8 bytes.\<close>

definition be_bytes :: "nat \<Rightarrow> nat \<Rightarrow> nat list" where
  "be_bytes k n = map (\<lambda>i. (n div 256 ^ i) mod 256) (rev [0..<k])"

definition sha_pad :: "nat list \<Rightarrow> nat list" where
  "sha_pad bs =
     bs @ [128] @ replicate ((119 - length bs mod 64) mod 64) 0 @ be_bytes 8 (8 * length bs)"

fun be_words :: "nat list \<Rightarrow> w32 list" where
  "be_words (a # b # c # d # bs) =
     word_of_nat (((a * 256 + b) * 256 + c) * 256 + d) # be_words bs"
| "be_words _ = []"

text \<open>
  The message schedule, from a window of 16 consecutive words: \<open>schedule k\<close> gives the
  next \<open>k\<close> words, the first of the window first.
\<close>

definition next_word :: "w32 list \<Rightarrow> w32" where
  "next_word ws = sigma1 (ws ! 14) + ws ! 9 + sigma0 (ws ! 1) + ws ! 0"

fun schedule :: "nat \<Rightarrow> w32 list \<Rightarrow> w32 list" where
  "schedule 0 ws = []"
| "schedule (Suc k) ws = hd ws # schedule k (tl ws @ [next_word ws])"

fun sha_round :: "w32 \<times> w32 \<Rightarrow> sha_state \<Rightarrow> sha_state" where
  "sha_round (k, w) (a, b, c, d, e, f, g, h) =
     (let t1 = h + Sigma1 e + Ch e f g + k + w;
          t2 = Sigma0 a + Maj a b c
      in (t1 + t2, a, b, c, d + t1, e, f, g))"

fun sha_add :: "sha_state \<Rightarrow> sha_state \<Rightarrow> sha_state" where
  "sha_add (a, b, c, d, e, f, g, h) (a', b', c', d', e', f', g', h') =
     (a + a', b + b', c + c', d + d', e + e', f + f', g + g', h + h')"

definition compress :: "w32 list \<Rightarrow> sha_state \<Rightarrow> sha_state" where
  "compress block st = sha_add st (fold sha_round (zip K256 (schedule 64 block)) st)"

function blocks :: "w32 list \<Rightarrow> w32 list list" where
  "blocks ws = (if ws = [] then [] else take 16 ws # blocks (drop 16 ws))"
  by pat_completeness auto
termination
  by (relation "measure length") auto

declare blocks.simps [simp del]

definition sha256 :: "string \<Rightarrow> sha_state" where
  "sha256 s = fold compress (blocks (be_words (sha_pad (map of_char s)))) H256"

text \<open>\<^verbatim>\<open>digest('hex')\<close>: two lower-case hexadecimal digits per byte.\<close>

definition hex_digit :: "nat \<Rightarrow> char" where
  "hex_digit k = ''0123456789abcdef'' ! (k mod 16)"

definition hex_word :: "w32 \<Rightarrow> string" where
  "hex_word w = map (\<lambda>i. hex_digit (unat (drop_bit (4 * i) w))) (rev [0..<8])"

fun hex_state :: "sha_state \<Rightarrow> string" where
  "hex_state (a, b, c, d, e, f, g, h) =
     hex_word a @ hex_word b @ hex_word c @ hex_word d
     @ hex_word e @ hex_word f @ hex_word g @ hex_word h"

definition sha256_hex :: "string \<Rightarrow> string" where
  "sha256_hex s = hex_state (sha256 s)"

subsection \<open>JavaScript numbers and strings\<close>

text \<open>
  A JavaScript number is a double. The integers from 0 to \<open>2 ^ 53\<close> are represented
  exactly, and \<^verbatim>\<open>n + 1\<close> is exact below \<open>2 ^ 53\<close>; at \<open>2 ^ 53\<close> the sum rounds back
  to \<open>2 ^ 53\<close> (ties to even), so \<^verbatim>\<open>nonce++\<close> stops counting there. The model is
  exact for every number that starts at most at \<open>2 ^ 53\<close>.
\<close>

definition MAX_EXACT :: nat where
  "MAX_EXACT = 2 ^ 53"

definition js_incr :: "nat \<Rightarrow> nat" where
  "js_incr n = (if n < MAX_EXACT then n + 1 else n)"

text \<open>\<^verbatim>\<open>String(n)\<close> of such an integer is its decimal numeral.\<close>

definition digit_char :: "nat \<Rightarrow> char" where
  "digit_char k = ''0123456789'' ! (k mod 10)"

function decimal :: "nat \<Rightarrow> string" where
  "decimal n = (if n < 10 then [digit_char n] else decimal (n div 10) @ [digit_char (n mod 10)])"
  by pat_completeness auto
termination
  by (relation "measure id") auto

declare decimal.simps [simp del]

text \<open>\<^verbatim>\<open>s.substring(0, k)\<close> for \<open>k \<ge> 0\<close>: the first \<open>k\<close> characters, all of \<open>s\<close> when it is shorter.\<close>

definition substring0 :: "string \<Rightarrow> nat \<Rightarrow> string" where
  "substring0 s k = take k s"

subsection \<open>JSON values and \<^verbatim>\<open>JSON.stringify\<close>\<close>

text \<open>
  Transactions are plain data received as JSON; objects keep their keys in insertion
  order. Numbers are restricted to integers, which \<^verbatim>\<open>JSON.stringify\<close> prints in
  decimal.
\<close>

datatype json =
    JNull
  | JBool bool
  | JNum int
  | JStr string
  | JArr "json list"
  | JObj "(string \<times> json) list"

definition escape_char :: "char \<Rightarrow> string" where
  "escape_char c =
     (if c = CHR 0x22 then [CHR 0x5C, CHR 0x22]
      else if c = CHR 0x5C then [CHR 0x5C, CHR 0x5C]
      else if c = CHR 0x08 then [CHR 0x5C, CHR ''b'']
      else if c = CHR 0x09 then [CHR 0x5C, CHR ''t'']
      else if c = CHR 0x0A then [CHR 0x5C, CHR ''n'']
      else if c = CHR 0x0C then [CHR 0x5C, CHR ''f'']
      else if c = CHR 0x0D then [CHR 0x5C, CHR ''r'']
      else if (of_char c :: nat) < 32
        then [CHR 0x5C, CHR ''u'', CHR ''0'', CHR ''0'',
              hex_digit (of_char c div 16), hex_digit (of_char c)]
      else [c])"

definition quoteJSON :: "string \<Rightarrow> string" where
  "quoteJSON s = [CHR 0x22] @ concat (map escape_char s) @ [CHR 0x22]"

fun join :: "string \<Rightarrow> string list \<Rightarrow> string" where
  "join sep [] = []"
| "join sep [x] = x"
| "join sep (x # y # ys) = x @ sep @ join sep (y # ys)"

definition show_int :: "int \<Rightarrow> string" where
  "show_int i = (if i < 0 then CHR ''-'' # decimal (nat (- i)) else decimal (nat i))"

fun JSON_stringify :: "json \<Rightarrow> string" where
  "JSON_stringify JNull = ''null''"
| "JSON_stringify (JBool b) = (if b then ''true'' else ''false'')"
| "JSON_stringify (JNum i) = show_int i"
| "JSON_stringify (JStr s) = quoteJSON s"
| "JSON_stringify (JArr xs) = ''['' @ join '','' (map JSON_stringify xs) @ '']''"
| "JSON_stringify (JObj kvs) =
     ''{'' @ join '','' (map (\<lambda>kv. quoteJSON (fst kv) @ '':'' @ JSON_stringify (snd kv)) kvs) @ ''}''"

section \<open>The nonce search worker (\<^verbatim>\<open>mineSingleTask\<close>)\<close>

record MiningResult =
  nonce :: nat
  hash :: string

text \<open>
  One trial of the loop body: \<^verbatim>\<open>blockData = blockHeader + nonce\<close>, then the hexadecimal
  SHA-256 digest of it.
\<close>

definition trial_hash :: "string \<Rightarrow> nat \<Rightarrow> string" where
  "trial_hash blockHeader n = sha256_hex (blockHeader @ decimal n)"

text \<open>
  The \<^verbatim>\<open>do ... while\<close> loop has no bound, so it is a partial function: \<open>None\<close> is
  a search that never returns. The argument is the nonce before \<^verbatim>\<open>nonce++\<close>.
\<close>

partial_function (option) mineLoop :: "string \<Rightarrow> string \<Rightarrow> nat \<Rightarrow> MiningResult option" where
  "mineLoop blockHeader target n =
     (if substring0 (trial_hash blockHeader (js_incr n)) (length target) \<noteq> target
      then mineLoop blockHeader target (js_incr n)
      else Some \<lparr>nonce = js_incr n, hash = trial_hash blockHeader (js_incr n)\<rparr>)"

definition startNonce :: "nat \<Rightarrow> nat" where
  "startNonce threadIndex = threadIndex * 1000000"

definition mineSingleTask :: "string \<Rightarrow> string \<Rightarrow> nat \<Rightarrow> MiningResult option" where
  "mineSingleTask header target threadIndex = mineLoop header target (startNonce threadIndex)"

text \<open>A nonce qualifies when its digest starts with the target.\<close>

definition qualifies :: "string \<Rightarrow> string \<Rightarrow> nat \<Rightarrow> bool" where
  "qualifies blockHeader target m \<longleftrightarrow>
     substring0 (trial_hash blockHeader m) (length target) = target"


text \<open>
  What a result of the loop started after nonce \<open>n\<close> satisfies: it carries the digest of
  its own nonce, the nonce qualifies, and no nonce between \<open>n\<close> and it does.
\<close>

definition found :: "string \<Rightarrow> string \<Rightarrow> nat \<Rightarrow> MiningResult \<Rightarrow> bool" where
  "found h t n r \<longleftrightarrow>
     hash r = trial_hash h (nonce r) \<and> qualifies h t (nonce r)
     \<and> n \<le> nonce r \<and> (n < MAX_EXACT \<longrightarrow> n < nonce r \<and> nonce r \<le> MAX_EXACT)
     \<and> (\<not> n < MAX_EXACT \<longrightarrow> nonce r = n)
     \<and> (\<forall>m. n < m \<and> m < nonce r \<longrightarrow> \<not> qualifies h t m)"

section \<open>Configuration of the process\<close>

text \<open>
  \<^verbatim>\<open>minerAddress\<close> (the command-line argument) and \<^verbatim>\<open>difficulty\<close> (a global that
  the program never reassigns; it starts at 4) are passed to every function that reads
  them. \<^verbatim>\<open>difficulty\<close> is a non-negative integer, as \<^verbatim>\<open>'0'.repeat\<close> requires.
\<close>

definition API_URL_MINE :: string where
  "API_URL_MINE = ''http://localhost:3000/mine''"

definition API_URL_PENDING :: string where
  "API_URL_PENDING = ''http://localhost:3000/pending-transactions''"

definition initial_difficulty :: nat where
  "initial_difficulty = 4"

definition parallelThreads :: nat where
  "parallelThreads = 4"

section \<open>Arrays by reference\<close>

text \<open>
  \<^verbatim>\<open>mineBlock\<close> pushes onto the array it is given, and the same array object is
  later read by the serializer and by the submission. Arrays of transactions therefore
  live in a store, and a variable holds a reference.
\<close>

type_synonym ref = nat

record heap =
  cells :: "ref \<Rightarrow> json list"
  fresh :: ref

definition alloc :: "heap \<Rightarrow> json list \<Rightarrow> heap \<times> ref" where
  "alloc h xs = (h\<lparr>cells := (cells h)(fresh h := xs), fresh := Suc (fresh h)\<rparr>, fresh h)"

definition push :: "heap \<Rightarrow> ref \<Rightarrow> json \<Rightarrow> heap" where
  "push h r x = h\<lparr>cells := (cells h)(r := cells h r @ [x])\<rparr>"

section \<open>Effects\<close>

text \<open>
  Every function returns the list of the effects it performed, in order: the lines it
  logged (one constructor per \<^verbatim>\<open>logger\<close> call of the source, with the values the
  message is made from), the HTTP requests it sent, and the delays it waited for.
\<close>

datatype logline =
    StartingMining
  | FetchingPending
  | FoundPending nat
  | NoPendingInResponse
  | ErrorFetching string
  | MiningWithPending nat
  | NoPendingToMine
  | MiningComplete
  | RequestingBlock
  | AddingReward
  | BlockAdded string
  | ErrorMining string
  | RetryingMining
  | StartingPoW
  | BlockMined nat string
  | RetryAttempt nat
  | RetrySucceeded nat string
  | AttemptFailed nat string
  | RetryingIn nat
  | AllRetriesFailed

datatype event =
    Log logline
  | HttpGet string
  | HttpPost string json
  | Sleep nat

text \<open>
  What the ledger service answers to a POST: a response carrying \<^verbatim>\<open>blockHash\<close>, or a
  failure (a rejection, a transport error, or a response without data), which reaches the
  \<^verbatim>\<open>catch\<close> block with a message.
\<close>

datatype reply = Accepted string | Failed string

text \<open>
  What the GET of the pending transactions gives: a failure, or a response whose
  \<^verbatim>\<open>data.pendingTransactions\<close> is missing (\<open>None\<close>) or an array.
\<close>

datatype fetched = FetchFailed string | Fetched "json list option"

datatype exn = Error string

section \<open>The parallel search coordinator (\<^verbatim>\<open>mineProofOfWorkParallel\<close>)\<close>

record MinedBlock = MiningResult +
  transactions :: ref

definition blockHeader :: "string \<Rightarrow> json list \<Rightarrow> nat \<Rightarrow> string" where
  "blockHeader minerAddress txs difficulty =
     JSON_stringify (JObj [(''minerAddress'', JStr minerAddress),
                           (''transactions'', JArr txs),
                           (''difficulty'', JNum (int difficulty))])"

definition target_of :: "nat \<Rightarrow> string" where
  "target_of difficulty = replicate difficulty CHR ''0''"

text \<open>
  \<^verbatim>\<open>mineSingleTask\<close> is an \<^verbatim>\<open>async\<close> function without any \<^verbatim>\<open>await\<close>: each call
  made by \<^verbatim>\<open>map\<close> runs its whole loop before the next call starts, and
  \<^verbatim>\<open>miningTasks\<close> is a list of promises that are already settled. A search that never
  returns is \<open>None\<close>.
\<close>

definition miningTasks :: "string \<Rightarrow> string \<Rightarrow> MiningResult option list" where
  "miningTasks header target =
     map (\<lambda>index. mineSingleTask header target index) [0..<parallelThreads]"

text \<open>\<^verbatim>\<open>await Promise.all\<close>: the list of all results, once every task has returned.\<close>

fun Promise_all :: "'a option list \<Rightarrow> 'a list option" where
  "Promise_all [] = Some []"
| "Promise_all (None # ps) = None"
| "Promise_all (Some x # ps) = (case Promise_all ps of None \<Rightarrow> None | Some xs \<Rightarrow> Some (x # xs))"

definition MiningFailed :: exn where
  "MiningFailed = Error ''Failed to mine block after all parallel threads''"

text \<open>The part after \<^verbatim>\<open>Promise.all\<close>: \<^verbatim>\<open>results.find\<close>, then return or throw.\<close>

definition selectValid ::
  "nat \<Rightarrow> string \<Rightarrow> ref \<Rightarrow> MiningResult list \<Rightarrow> event list \<times> (exn + MinedBlock)" where
  "selectValid difficulty target txs results =
     (case find (\<lambda>result. substring0 (hash result) difficulty = target) results of
        Some validResult \<Rightarrow>
          ([Log (BlockMined (nonce validResult) (hash validResult))],
           Inr \<lparr>nonce = nonce validResult, hash = hash validResult, transactions = txs\<rparr>)
      | None \<Rightarrow> ([], Inl MiningFailed))"

definition mineProofOfWorkParallel ::
  "string \<Rightarrow> nat \<Rightarrow> heap \<Rightarrow> ref \<Rightarrow> (event list \<times> (exn + MinedBlock)) option" where
  "mineProofOfWorkParallel minerAddress difficulty h txs =
     (case Promise_all (miningTasks (blockHeader minerAddress (cells h txs) difficulty)
                                    (target_of difficulty)) of
        None \<Rightarrow> None
      | Some results \<Rightarrow>
          (case selectValid difficulty (target_of difficulty) txs results of
             (evs, out) \<Rightarrow> Some (Log StartingPoW # evs, out)))"

section \<open>Submission and retry (\<^verbatim>\<open>retryMineBlock\<close>, \<^verbatim>\<open>mineBlock\<close>)\<close>

text \<open>
  \<open>post k\<close> is the service's answer to the POST number \<open>k\<close> of a round: 0 for the
  submission of the mined block, \<open>attempt\<close> for each retry.
\<close>

definition retryBody :: "string \<Rightarrow> json" where
  "retryBody minerAddress = JObj [(''minerAddress'', JStr minerAddress)]"

function retryLoop :: "string \<Rightarrow> (nat \<Rightarrow> reply) \<Rightarrow> nat \<Rightarrow> nat \<Rightarrow> nat \<Rightarrow> event list" where
  "retryLoop minerAddress post retries delay attempt =
     (if attempt \<le> retries then
        Log (RetryAttempt attempt) # HttpPost API_URL_MINE (retryBody minerAddress) #
        (case post attempt of
           Accepted blockHash \<Rightarrow> [Log (RetrySucceeded attempt blockHash)]
         | Failed msg \<Rightarrow>
             Log (AttemptFailed attempt msg) #
             (if attempt < retries then [Log (RetryingIn delay), Sleep delay]
              else [Log AllRetriesFailed])
             @ retryLoop minerAddress post retries delay (attempt + 1))
      else [])"
  by pat_completeness auto
termination
  by (relation "measure (\<lambda>(minerAddress, post, retries, delay, attempt). Suc retries - attempt)") auto

declare retryLoop.simps [simp del]

definition retryMineBlock :: "string \<Rightarrow> (nat \<Rightarrow> reply) \<Rightarrow> nat \<Rightarrow> nat \<Rightarrow> event list" where
  "retryMineBlock minerAddress post retries delay = retryLoop minerAddress post retries delay 1"

definition reward :: "string \<Rightarrow> json" where
  "reward minerAddress =
     JObj [(''Holly$'', JNum 512),
           (''Transmitter'', JStr ''Coinbase''),
           (''Target'', JStr minerAddress),
           (''BlockReward'', JBool True)]"

text \<open>Lines 83 to 91: the reward is pushed onto the array that was passed in.\<close>

definition addReward :: "string \<Rightarrow> heap \<Rightarrow> ref \<Rightarrow> heap \<times> event list" where
  "addReward minerAddress h txs =
     (if length (cells h txs) = 0
      then (push h txs (reward minerAddress), [Log AddingReward])
      else (h, []))"

definition blockData :: "string \<Rightarrow> heap \<Rightarrow> MinedBlock \<Rightarrow> json" where
  "blockData minerAddress h minedBlock =
     JObj [(''minerAddress'', JStr minerAddress),
           (''transactions'', JArr (cells h (transactions minedBlock))),
           (''nonce'', JNum (int (nonce minedBlock))),
           (''hash'', JStr (hash minedBlock))]"

text \<open>
  When the search never returns, neither does \<^verbatim>\<open>mineBlock\<close>. An error thrown by the
  search and a failed submission both reach the \<^verbatim>\<open>catch\<close> block, which calls
  \<^verbatim>\<open>retryMineBlock()\<close> with its default arguments.
\<close>

definition mineBlock ::
  "string \<Rightarrow> nat \<Rightarrow> (nat \<Rightarrow> reply) \<Rightarrow> heap \<Rightarrow> ref \<Rightarrow> (heap \<times> event list) option" where
  "mineBlock minerAddress difficulty post h txs =
     (case addReward minerAddress h txs of
        (h1, evs1) \<Rightarrow>
          (case mineProofOfWorkParallel minerAddress difficulty h1 txs of
             None \<Rightarrow> None
           | Some (evs2, Inl (Error msg)) \<Rightarrow>
               Some (h1, Log RequestingBlock # evs1 @ evs2
                         @ [Log (ErrorMining msg), Log RetryingMining]
                         @ retryMineBlock minerAddress post 3 12000)
           | Some (evs2, Inr minedBlock) \<Rightarrow>
               (case post 0 of
                  Accepted blockHash \<Rightarrow>
                    Some (h1, Log RequestingBlock # evs1 @ evs2
                              @ [HttpPost API_URL_MINE (blockData minerAddress h1 minedBlock),
                                 Log (BlockAdded blockHash)])
                | Failed msg \<Rightarrow>
                    Some (h1, Log RequestingBlock # evs1 @ evs2
                              @ [HttpPost API_URL_MINE (blockData minerAddress h1 minedBlock),
                                 Log (ErrorMining msg), Log RetryingMining]
                              @ retryMineBlock minerAddress post 3 12000))))"

section \<open>A mining round (\<^verbatim>\<open>getPendingTransactions\<close>, \<^verbatim>\<open>startMining\<close>)\<close>

text \<open>What a round reads from outside: the clock, the GET and the answers to its POSTs.\<close>

record env =
  clock :: string
  pending :: fetched
  answers :: "nat \<Rightarrow> reply"

definition getPendingTransactions :: "fetched \<Rightarrow> heap \<Rightarrow> heap \<times> ref \<times> event list" where
  "getPendingTransactions got h =
     (case got of
        Fetched (Some txs) \<Rightarrow>
          (case alloc h txs of
             (h1, r) \<Rightarrow> (h1, r, [Log FetchingPending, HttpGet API_URL_PENDING,
                                 Log (FoundPending (length txs))]))
      | Fetched None \<Rightarrow>
          (case alloc h [] of
             (h1, r) \<Rightarrow> (h1, r, [Log FetchingPending, HttpGet API_URL_PENDING,
                                 Log NoPendingInResponse]))
      | FetchFailed msg \<Rightarrow>
          (case alloc h [] of
             (h1, r) \<Rightarrow> (h1, r, [Log FetchingPending, HttpGet API_URL_PENDING,
                                 Log (ErrorFetching msg)])))"

definition startMining :: "string \<Rightarrow> nat \<Rightarrow> env \<Rightarrow> heap \<Rightarrow> (heap \<times> event list) option" where
  "startMining minerAddress difficulty e h =
     (let timestamp = clock e in
      case getPendingTransactions (pending e) h of
        (h1, pendingTransactions, evs1) \<Rightarrow>
          if length (cells h1 pendingTransactions) > 0 then
            (case mineBlock minerAddress difficulty (answers e) h1 pendingTransactions of
               None \<Rightarrow> None
             | Some (h2, evs2) \<Rightarrow>
                 Some (h2, Log StartingMining # evs1
                           @ [Log (MiningWithPending (length (cells h1 pendingTransactions)))]
                           @ evs2 @ [Log MiningComplete]))
          else
            (case alloc h1 [] of
               (h2, emptyArray) \<Rightarrow>
                 (case mineBlock minerAddress difficulty (answers e) h2 emptyArray of
                    None \<Rightarrow> None
                  | Some (h3, evs2) \<Rightarrow>
                      Some (h3, Log StartingMining # evs1 @ [Log NoPendingToMine]
                                @ evs2 @ [Log MiningComplete]))))"


section \<open>The periodic trigger (\<^verbatim>\<open>setInterval(startMining, 10000)\<close>)\<close>

text \<open>
  JavaScript runs one piece of code at a time. A round holds the event loop for as long
  as it runs synchronous code and gives it up only where it awaits something that
  completes later: the answer to the GET, the answer to a POST, the retry delay. The nonce
  search is synchronous (\<^verbatim>\<open>mineSingleTask\<close> has no \<^verbatim>\<open>await\<close>, and the
  \<^verbatim>\<open>await\<close> of \<^verbatim>\<open>Promise.all\<close> on promises that are already settled resumes
  before any timer), so no timer callback runs for as long as it lasts. The timeline of a
  round is the list of these stretches: \<open>Busy n\<close> is synchronous code that takes
  \<open>n\<close> milliseconds, \<open>Idle n\<close> an await that takes \<open>n\<close> milliseconds.
\<close>

datatype segment = Busy nat | Idle nat

fun len :: "segment \<Rightarrow> nat" where
  "len (Busy n) = n"
| "len (Idle n) = n"

definition duration :: "segment list \<Rightarrow> nat" where
  "duration segs = sum_list (map len segs)"

text \<open>
  Every stretch of synchronous code of a round begins with a logged line, so its time is
  given per line: \<open>busy l\<close> is the time of the synchronous code that follows the line
  \<open>l\<close>, and \<open>busy StartingPoW\<close> the time the whole search takes. \<open>lat\<close> is the time
  the service takes to answer a request.
\<close>

fun timeline :: "nat \<Rightarrow> (logline \<Rightarrow> nat) \<Rightarrow> event \<Rightarrow> segment" where
  "timeline lat busy (Log l) = Busy (busy l)"
| "timeline lat busy (HttpGet url) = Idle lat"
| "timeline lat busy (HttpPost url body) = Idle lat"
| "timeline lat busy (Sleep ms) = Idle ms"

text \<open>The events at which a round gives up the event loop.\<close>

fun awaits :: "event \<Rightarrow> bool" where
  "awaits (Log l) = False"
| "awaits e = True"

text \<open>A search of \<open>ms\<close> milliseconds, all other synchronous code taking no time.\<close>

definition searchTakes :: "nat \<Rightarrow> logline \<Rightarrow> nat" where
  "searchTakes ms l = (if l = StartingPoW then ms else 0)"

text \<open>
  The callback of the timer is \<^verbatim>\<open>startMining\<close> itself: the program keeps no flag of an
  unfinished round and never clears the timer. A callback that is due runs as soon as the
  event loop is free. \<open>fireTime due t segs\<close> follows a round that is at time \<open>t\<close>
  with the timeline \<open>segs\<close> still before it, while the timer is due at \<open>due\<close>: the
  callback runs in the first await that ends after \<open>due\<close>, at \<open>due\<close> or, when it
  is overdue, as soon as that await begins; it never runs in a synchronous stretch. The
  result is \<open>None\<close> when the round finishes before the callback runs. Only this
  round and the timer are followed: no other round is in flight at \<open>t\<close>.
\<close>

fun fireTime :: "nat \<Rightarrow> nat \<Rightarrow> segment list \<Rightarrow> nat option" where
  "fireTime due t [] = None"
| "fireTime due t (Busy n # segs) = fireTime due (t + n) segs"
| "fireTime due t (Idle n # segs) =
     (if due < t + n then Some (max due t) else fireTime due (t + n) segs)"

definition pollInterval :: nat where
  "pollInterval = 10000"

text \<open>
  For a round started at time \<open>t\<close>: the time at which it finishes, and the time at
  which the next call of \<^verbatim>\<open>startMining\<close> is made by the timer if that is before the
  round has finished. A round whose search never returns holds the event loop for ever:
  it does not finish and no callback runs.
\<close>

definition roundEnd ::
  "nat \<Rightarrow> nat \<Rightarrow> (logline \<Rightarrow> nat) \<Rightarrow> (heap \<times> event list) option \<Rightarrow> nat option" where
  "roundEnd t lat busy res =
     (case res of None \<Rightarrow> None
      | Some (h, evs) \<Rightarrow> Some (t + duration (map (timeline lat busy) evs)))"

definition nextStart ::
  "nat \<Rightarrow> nat \<Rightarrow> nat \<Rightarrow> (logline \<Rightarrow> nat) \<Rightarrow> (heap \<times> event list) option \<Rightarrow> nat option" where
  "nextStart due t lat busy res =
     (case res of None \<Rightarrow> None
      | Some (h, evs) \<Rightarrow> fireTime due t (map (timeline lat busy) evs))"

section \<open>Reading a trace\<close>

fun isPost :: "event \<Rightarrow> bool" where
  "isPost (HttpPost url body) = True"
| "isPost e = False"

fun isSleep :: "event \<Rightarrow> bool" where
  "isSleep (Sleep ms) = True"
| "isSleep e = False"

text \<open>The requests a trace sends, and the requests together with the delays.\<close>

definition posts :: "event list \<Rightarrow> event list" where
  "posts evs = filter isPost evs"

definition waits :: "event list \<Rightarrow> event list" where
  "waits evs = filter (\<lambda>e. isPost e \<or> isSleep e) evs"

text \<open>\<open>k\<close> times \<open>p\<close>, with one \<open>s\<close> between two consecutive ones.\<close>

fun alternating :: "'a \<Rightarrow> 'a \<Rightarrow> nat \<Rightarrow> 'a list" where
  "alternating p s 0 = []"
| "alternating p s (Suc 0) = [p]"
| "alternating p s (Suc (Suc k)) = p # s # alternating p s (Suc k)"

text \<open>
  Inputs for the examples: a store with no array yet, a transaction, a service that
  refuses and one that accepts.
\<close>

definition emptyHeap :: heap where
  "emptyHeap = \<lparr>cells = (\<lambda>r. []), fresh = 0\<rparr>"

definition tx1 :: json where
  "tx1 = JObj [(''Holly$'', JNum 5), (''Transmitter'', JStr ''alice''), (''Target'', JStr ''bob'')]"

definition refuseAll :: "nat \<Rightarrow> reply" where
  "refuseAll k = Failed ''rejected''"

definition acceptAll :: "nat \<Rightarrow> reply" where
  "acceptAll k = Accepted ''00ab''"

text \<open>A service that refuses every POST of a round but the one numbered \<open>n\<close>.\<close>

definition acceptAt :: "nat \<Rightarrow> nat \<Rightarrow> reply" where
  "acceptAt n k = (if k = n then Accepted ''00ab'' else Failed ''rejected'')"

definition refusingEnv :: env where
  "refusingEnv = \<lparr>clock = ''2026-01-01T00:00:00.000Z'', pending = Fetched None,
                   answers = refuseAll\<rparr>"

section \<open>Properties of the built-ins\<close>

lemma length_hex_word: "length (hex_word w) = 8"
  by (simp add: hex_word_def)

lemma length_hex_state: "length (hex_state st) = 64"
  by (induction st rule: hex_state.induct) (simp add: length_hex_word)

lemma length_sha256_hex: "length (sha256_hex s) = 64"
  by (simp add: sha256_hex_def length_hex_state)

lemma js_incr_below: "n < MAX_EXACT \<Longrightarrow> js_incr n = Suc n"
  by (simp add: js_incr_def)

lemma js_incr_top: "\<not> n < MAX_EXACT \<Longrightarrow> js_incr n = n"
  by (simp add: js_incr_def)

lemma length_target_of: "length (target_of d) = d"
  by (simp add: target_of_def)

section \<open>The search loop\<close>

lemma found_here:
  "qualifies h t (js_incr n) \<Longrightarrow>
   found h t n \<lparr>nonce = js_incr n, hash = trial_hash h (js_incr n)\<rparr>"
  by (auto simp: found_def js_incr_def)

lemma found_later:
  assumes nq: "\<not> qualifies h t (js_incr n)" and ih: "found h t (js_incr n) r"
  shows "found h t n r"
proof (cases "n < MAX_EXACT")
  case True
  then have s: "js_incr n = Suc n" by (rule js_incr_below)
  have "\<not> qualifies h t m" if "n < m" "m < nonce r" for m
  proof (cases "m = Suc n")
    case True
    with nq s show ?thesis by simp
  next
    case False
    with that have "js_incr n < m" by (simp add: s)
    with ih that show ?thesis by (simp add: found_def)
  qed
  moreover from ih s True have "n < nonce r" "nonce r \<le> MAX_EXACT"
    by (auto simp: found_def not_less)
  ultimately show ?thesis using ih True by (simp add: found_def)
next
  case False
  then have "js_incr n = n" by (rule js_incr_top)
  with ih show ?thesis by simp
qed

lemma mineLoop_found: "mineLoop h t n = Some r \<Longrightarrow> found h t n r"
proof (rule mineLoop.raw_induct [where P = found])
  fix loop :: "string \<Rightarrow> string \<Rightarrow> nat \<Rightarrow> MiningResult option" and h t n r
  assume ih: "\<And>h t n r. loop h t n = Some r \<Longrightarrow> found h t n r"
    and step: "(if substring0 (trial_hash h (js_incr n)) (length t) \<noteq> t
                then loop h t (js_incr n)
                else Some \<lparr>nonce = js_incr n, hash = trial_hash h (js_incr n)\<rparr>) = Some r"
  show "found h t n r"
  proof (cases "qualifies h t (js_incr n)")
    case True
    with step have "r = \<lparr>nonce = js_incr n, hash = trial_hash h (js_incr n)\<rparr>"
      by (simp add: qualifies_def)
    with True show ?thesis by (simp add: found_here)
  next
    case False
    with step have "loop h t (js_incr n) = Some r"
      by (simp add: qualifies_def)
    then have "found h t (js_incr n) r" by (rule ih)
    with False show ?thesis by (rule found_later)
  qed
qed

lemma mineLoop_returns:
  assumes "n < m" "m \<le> MAX_EXACT" "qualifies h t m"
  shows "\<exists>r. mineLoop h t n = Some r"
  using assms
proof (induction "m - n" arbitrary: n)
  case 0
  then show ?case by simp
next
  case (Suc k)
  from Suc.prems have s: "js_incr n = Suc n"
    by (simp add: js_incr_def)
  show ?case
  proof (cases "qualifies h t (Suc n)")
    case True
    then show ?thesis
      by (subst mineLoop.simps) (simp add: s qualifies_def)
  next
    case False
    with Suc.prems have "Suc n \<noteq> m" by auto
    with Suc.prems have lt: "Suc n < m" by simp
    from Suc.hyps(2) have "k = m - Suc n" by simp
    from Suc.hyps(1) [OF this lt Suc.prems(2,3)]
    obtain r where "mineLoop h t (Suc n) = Some r" ..
    with False show ?thesis
      by (subst mineLoop.simps) (simp add: s qualifies_def)
  qed
qed

lemma mineLoop_diverges:
  assumes "\<forall>m. n \<le> m \<longrightarrow> \<not> qualifies h t m"
  shows "mineLoop h t n = None"
proof (cases "mineLoop h t n")
  case None
  then show ?thesis .
next
  case (Some r)
  from mineLoop_found [OF Some] assms show ?thesis by (auto simp: found_def)
qed

text \<open>A digest has 64 characters, so no nonce qualifies for a longer target.\<close>

lemma long_target_never_qualifies: "64 < length t \<Longrightarrow> \<not> qualifies h t m"
proof
  assume long: "64 < length t" and q: "qualifies h t m"
  from q have "length t = length (take (length t) (trial_hash h m))"
    by (simp add: qualifies_def substring0_def)
  also have "\<dots> \<le> 64"
    by (simp add: trial_hash_def length_sha256_hex)
  finally show False using long by simp
qed

lemma mineSingleTask_long_target: "64 < length t \<Longrightarrow> mineSingleTask h t i = None"
  by (simp add: mineSingleTask_def mineLoop_diverges long_target_never_qualifies)

text \<open>With the empty target the first trial qualifies.\<close>

lemma mineLoop_empty_target:
  "mineLoop h [] n = Some \<lparr>nonce = js_incr n, hash = trial_hash h (js_incr n)\<rparr>"
  by (subst mineLoop.simps) (simp add: substring0_def)

lemma startNonce_threads: "i < parallelThreads \<Longrightarrow> startNonce i < MAX_EXACT"
  by (simp add: parallelThreads_def startNonce_def MAX_EXACT_def)

lemma decimal_1: "decimal (Suc 0) = ''1''"
  by (simp add: decimal.simps digit_char_def)

lemma mineSingleTask_empty_target_0:
  "mineSingleTask h [] 0 = Some \<lparr>nonce = 1, hash = trial_hash h 1\<rparr>"
  by (simp add: mineSingleTask_def startNonce_def mineLoop_empty_target js_incr_def MAX_EXACT_def)

section \<open>The coordinator\<close>

lemma threads_list: "[0..<parallelThreads] = [0, 1, 2, 3]"
  by (simp add: parallelThreads_def upt_rec)

lemma Promise_all_map_Some: "Promise_all (map Some xs) = Some xs"
  by (induction xs) auto

lemma Promise_all_SomeD: "Promise_all ps = Some xs \<Longrightarrow> ps = map Some xs"
  by (induction ps arbitrary: xs rule: Promise_all.induct) (auto split: option.splits)

lemma Promise_all_Some: "Promise_all ps = Some xs \<longleftrightarrow> ps = map Some xs"
  using Promise_all_SomeD Promise_all_map_Some by blast

lemma Promise_all_None: "Promise_all ps = None \<longleftrightarrow> None \<in> set ps"
proof (induction ps)
  case Nil
  then show ?case by simp
next
  case (Cons p ps)
  then show ?case by (cases p) (auto split: option.splits)
qed

lemma miningTasks_results:
  assumes "Promise_all (miningTasks header target) = Some results"
  shows "\<exists>r0 r1 r2 r3. results = [r0, r1, r2, r3]
           \<and> mineSingleTask header target 0 = Some r0
           \<and> mineSingleTask header target 1 = Some r1
           \<and> mineSingleTask header target 2 = Some r2
           \<and> mineSingleTask header target 3 = Some r3"
proof -
  from assms have "miningTasks header target = map Some results"
    by (simp add: Promise_all_Some)
  then have "[mineSingleTask header target 0, mineSingleTask header target 1,
              mineSingleTask header target 2, mineSingleTask header target 3] = map Some results"
    by (simp add: miningTasks_def threads_list)
  then show ?thesis
    by (auto simp: map_eq_Cons_conv dest!: sym [of "_ # _"])
qed

lemma worker_valid:
  assumes "mineSingleTask header (target_of d) i = Some r"
  shows "substring0 (hash r) d = target_of d"
proof -
  from assms have "found header (target_of d) (startNonce i) r"
    by (simp add: mineSingleTask_def mineLoop_found)
  then show ?thesis
    by (simp add: found_def qualifies_def length_target_of)
qed

lemma coordinator_result:
  assumes "mineProofOfWorkParallel minerAddress d h txs = Some (evs, out)"
  shows "\<exists>r0. mineSingleTask (blockHeader minerAddress (cells h txs) d) (target_of d) 0 = Some r0
           \<and> (\<forall>i<parallelThreads.
                 mineSingleTask (blockHeader minerAddress (cells h txs) d) (target_of d) i \<noteq> None)
           \<and> evs = [Log StartingPoW, Log (BlockMined (nonce r0) (hash r0))]
           \<and> out = Inr \<lparr>nonce = nonce r0, hash = hash r0, transactions = txs\<rparr>"
proof -
  let ?hd = "blockHeader minerAddress (cells h txs) d"
  from assms obtain results where all: "Promise_all (miningTasks ?hd (target_of d)) = Some results"
    and sel: "selectValid d (target_of d) txs results = (tl evs, out)"
      and evs: "evs = Log StartingPoW # tl evs"
    by (auto simp: mineProofOfWorkParallel_def split: option.splits prod.splits)
  from miningTasks_results [OF all] obtain r0 r1 r2 r3 where rs: "results = [r0, r1, r2, r3]"
    and w: "mineSingleTask ?hd (target_of d) 0 = Some r0" "mineSingleTask ?hd (target_of d) 1 = Some r1"
       "mineSingleTask ?hd (target_of d) 2 = Some r2" "mineSingleTask ?hd (target_of d) 3 = Some r3"
    by blast
  have v: "substring0 (hash r0) d = target_of d"
    using w(1) by (rule worker_valid)
  from sel rs v have "tl evs = [Log (BlockMined (nonce r0) (hash r0))]"
    and "out = Inr \<lparr>nonce = nonce r0, hash = hash r0, transactions = txs\<rparr>"
    by (simp_all add: selectValid_def)
  moreover have "mineSingleTask ?hd (target_of d) i \<noteq> None" if "i < parallelThreads" for i
  proof -
    from that have "i = 0 \<or> i = 1 \<or> i = 2 \<or> i = 3"
      by (auto simp: parallelThreads_def)
    with w show ?thesis by auto
  qed
  ultimately show ?thesis using w(1) evs by auto
qed

lemma coordinator_waits:
  assumes "i < parallelThreads"
    and "mineSingleTask (blockHeader minerAddress (cells h txs) d) (target_of d) i = None"
  shows "mineProofOfWorkParallel minerAddress d h txs = None"
proof -
  from assms have "None \<in> set (miningTasks (blockHeader minerAddress (cells h txs) d) (target_of d))"
    by (force simp: miningTasks_def)
  then show ?thesis
    by (simp add: mineProofOfWorkParallel_def Promise_all_None [symmetric])
qed

lemma miningTasks_empty_target:
  "miningTasks header [] =
     [Some \<lparr>nonce = 1, hash = trial_hash header 1\<rparr>,
      Some \<lparr>nonce = 1000001, hash = trial_hash header 1000001\<rparr>,
      Some \<lparr>nonce = 2000001, hash = trial_hash header 2000001\<rparr>,
      Some \<lparr>nonce = 3000001, hash = trial_hash header 3000001\<rparr>]"
  by (simp add: miningTasks_def threads_list mineSingleTask_def startNonce_def
      mineLoop_empty_target js_incr_def MAX_EXACT_def)

lemma coordinator_difficulty_0:
  "mineProofOfWorkParallel minerAddress 0 h txs =
     Some ([Log StartingPoW,
            Log (BlockMined 1 (trial_hash (blockHeader minerAddress (cells h txs) 0) 1))],
           Inr \<lparr>nonce = 1, hash = trial_hash (blockHeader minerAddress (cells h txs) 0) 1,
                transactions = txs\<rparr>)"
  by (simp add: mineProofOfWorkParallel_def target_of_def miningTasks_empty_target
      selectValid_def substring0_def)

section \<open>The worker's result (C1, C9)\<close>

text \<open>
  C1, as the code has it. The claim says that the worker returns for every difficulty;
  the loop has no bound, and it returns exactly when some nonce above its start, up to
  \<open>2 ^ 53\<close>, qualifies. When it returns, the hash is the hexadecimal SHA-256 digest of
  the header followed by the decimal nonce, and its first \<open>d\<close> characters are zeros.
  For a difficulty above 64, the length of a digest, it never returns.
\<close>

theorem worker_result:
  assumes start: "startNonce i < MAX_EXACT"
  shows "(\<forall>r. mineSingleTask header (target_of d) i = Some r \<longrightarrow>
            hash r = sha256_hex (header @ decimal (nonce r))
            \<and> take d (hash r) = replicate d CHR ''0'')
         \<and> ((\<exists>r. mineSingleTask header (target_of d) i = Some r) \<longleftrightarrow>
            (\<exists>m. startNonce i < m \<and> m \<le> MAX_EXACT \<and> qualifies header (target_of d) m))
         \<and> (64 < d \<longrightarrow> mineSingleTask header (target_of d) i = None)"
proof (intro conjI allI impI)
  fix r
  assume "mineSingleTask header (target_of d) i = Some r"
  then have f: "found header (target_of d) (startNonce i) r"
    by (simp add: mineSingleTask_def mineLoop_found)
  then show "hash r = sha256_hex (header @ decimal (nonce r))"
    by (simp add: found_def trial_hash_def)
  from f have "take d (trial_hash header (nonce r)) = target_of d"
    by (simp add: found_def qualifies_def substring0_def length_target_of)
  with f show "take d (hash r) = replicate d CHR ''0''"
    by (simp add: found_def target_of_def)
next
  show "(\<exists>r. mineSingleTask header (target_of d) i = Some r) \<longleftrightarrow>
        (\<exists>m. startNonce i < m \<and> m \<le> MAX_EXACT \<and> qualifies header (target_of d) m)"
  proof
    assume "\<exists>r. mineSingleTask header (target_of d) i = Some r"
    then obtain r where "mineLoop header (target_of d) (startNonce i) = Some r"
      by (auto simp: mineSingleTask_def)
    then have "found header (target_of d) (startNonce i) r"
      by (rule mineLoop_found)
    with start have "startNonce i < nonce r \<and> nonce r \<le> MAX_EXACT
                     \<and> qualifies header (target_of d) (nonce r)"
      by (simp add: found_def)
    then show "\<exists>m. startNonce i < m \<and> m \<le> MAX_EXACT \<and> qualifies header (target_of d) m" ..
  next
    assume "\<exists>m. startNonce i < m \<and> m \<le> MAX_EXACT \<and> qualifies header (target_of d) m"
    then show "\<exists>r. mineSingleTask header (target_of d) i = Some r"
      by (auto simp: mineSingleTask_def intro: mineLoop_returns)
  qed
next
  assume "64 < d"
  then show "mineSingleTask header (target_of d) i = None"
    by (simp add: mineSingleTask_long_target length_target_of)
qed

theorem worker_result_witness:
  "startNonce 0 < MAX_EXACT
   \<and> mineSingleTask ''h'' (target_of 0) 0 = Some \<lparr>nonce = 1, hash = sha256_hex ''h1''\<rparr>
   \<and> take 0 (sha256_hex ''h1'') = replicate 0 CHR ''0''
   \<and> (\<exists>m. startNonce 0 < m \<and> m \<le> MAX_EXACT \<and> qualifies ''h'' (target_of 0) m)
   \<and> (64::nat) < 65 \<and> mineSingleTask ''h'' (target_of 65) 0 = None"
proof -
  have s: "startNonce 0 < MAX_EXACT"
    by (simp add: startNonce_def MAX_EXACT_def)
  have r: "mineSingleTask ''h'' (target_of 0) 0 = Some \<lparr>nonce = 1, hash = sha256_hex ''h1''\<rparr>"
    by (simp add: target_of_def mineSingleTask_empty_target_0 trial_hash_def decimal_1)
  from worker_result [OF s, of "''h''" 0] r
  have a: "\<exists>m. startNonce 0 < m \<and> m \<le> MAX_EXACT \<and> qualifies ''h'' (target_of 0) m"
    by blast
  from worker_result [OF s, of "''h''" 65]
  have b: "mineSingleTask ''h'' (target_of 65) 0 = None"
    by simp
  from s r a b show ?thesis by simp
qed

text \<open>
  C1 as stated fails: with difficulty 65, header \<open>h\<close> and worker 0, the target has 65
  characters, the first 65 characters of a digest are its 64 characters, the loop
  condition stays true, and the worker does not return.
\<close>

theorem worker_never_returns_counterexample:
  "mineSingleTask ''h'' (replicate 65 CHR ''0'') 0 = None"
  by (simp add: mineSingleTask_long_target)

text \<open>
  C9: the nonce that worker \<open>i\<close> returns is above its starting offset
  \<open>i * 1000000\<close>, it qualifies, and no nonce strictly between the offset and it does;
  the worker does return when some nonce above the offset, up to \<open>2 ^ 53\<close>, qualifies.
  The starting offsets increase with the worker's index and are pairwise distinct.
\<close>

theorem least_nonce:
  assumes start: "startNonce i < MAX_EXACT"
  shows "(\<forall>r. mineSingleTask header target i = Some r \<longrightarrow>
            i * 1000000 < nonce r
            \<and> take (length target) (sha256_hex (header @ decimal (nonce r))) = target
            \<and> (\<forall>m. i * 1000000 < m \<and> m < nonce r \<longrightarrow>
                 take (length target) (sha256_hex (header @ decimal m)) \<noteq> target))
         \<and> ((\<exists>m. i * 1000000 < m \<and> m \<le> MAX_EXACT
                 \<and> take (length target) (sha256_hex (header @ decimal m)) = target) \<longrightarrow>
            (\<exists>r. mineSingleTask header target i = Some r))
         \<and> (\<forall>j. i < j \<longrightarrow> startNonce i < startNonce j)
         \<and> (\<forall>j. i \<noteq> j \<longrightarrow> startNonce i \<noteq> startNonce j)"
proof (intro conjI allI impI)
  fix r
  assume "mineSingleTask header target i = Some r"
  then have f: "found header target (startNonce i) r"
    by (simp add: mineSingleTask_def mineLoop_found)
  with start show "i * 1000000 < nonce r"
    by (simp add: found_def startNonce_def)
  from f show "take (length target) (sha256_hex (header @ decimal (nonce r))) = target"
    by (simp add: found_def qualifies_def substring0_def trial_hash_def)
  fix m
  assume "i * 1000000 < m \<and> m < nonce r"
  with f have "\<not> qualifies header target m"
    by (simp add: found_def startNonce_def)
  then show "take (length target) (sha256_hex (header @ decimal m)) \<noteq> target"
    by (simp add: qualifies_def substring0_def trial_hash_def)
next
  assume "\<exists>m. i * 1000000 < m \<and> m \<le> MAX_EXACT
              \<and> take (length target) (sha256_hex (header @ decimal m)) = target"
  then obtain m where "startNonce i < m" "m \<le> MAX_EXACT" "qualifies header target m"
    by (auto simp: qualifies_def substring0_def trial_hash_def startNonce_def)
  then show "\<exists>r. mineSingleTask header target i = Some r"
    unfolding mineSingleTask_def by (rule mineLoop_returns)
next
  fix j :: nat
  assume "i < j"
  then show "startNonce i < startNonce j"
    by (simp add: startNonce_def)
next
  fix j :: nat
  assume "i \<noteq> j"
  then show "startNonce i \<noteq> startNonce j"
    by (simp add: startNonce_def)
qed

theorem least_nonce_witness:
  "startNonce 1 < MAX_EXACT
   \<and> mineSingleTask ''h'' [] 1 = Some \<lparr>nonce = 1000001, hash = sha256_hex ''h1000001''\<rparr>
   \<and> 1 * 1000000 < (1000001::nat)
   \<and> take (length []) (sha256_hex (''h'' @ decimal 1000001)) = []
   \<and> (1::nat) < 2 \<and> startNonce 1 < startNonce 2 \<and> startNonce 1 \<noteq> startNonce 2"
proof -
  have s: "startNonce 1 < MAX_EXACT"
    by (simp add: startNonce_def MAX_EXACT_def)
  have d: "decimal 1000001 = ''1000001''"
    by (simp add: decimal.simps digit_char_def)
  have r: "mineSingleTask ''h'' [] 1 = Some \<lparr>nonce = 1000001, hash = sha256_hex ''h1000001''\<rparr>"
    by (simp add: mineSingleTask_def startNonce_def mineLoop_empty_target js_incr_def
        MAX_EXACT_def trial_hash_def d)
  from least_nonce [OF s, of "''h''" "[]"] r s show ?thesis
    by simp
qed

section \<open>What the coordinator returns (C6, C4)\<close>






text \<open>
  C4, as the code has it: there is no cancellation. The coordinator returns only after
  each of the \<open>parallelThreads\<close> workers has returned, it does not return when one of
  them does not, and the block carries the result of worker 0, the first of the list;
  the results of the other workers are dropped.
\<close>

theorem coordinator_waits_for_all:
  "(\<forall>evs out. mineProofOfWorkParallel minerAddress d h txs = Some (evs, out) \<longrightarrow>
       (\<forall>i<parallelThreads.
          \<exists>r. mineSingleTask (blockHeader minerAddress (cells h txs) d) (target_of d) i = Some r)
       \<and> (\<exists>r0. mineSingleTask (blockHeader minerAddress (cells h txs) d) (target_of d) 0 = Some r0
              \<and> out = Inr \<lparr>nonce = nonce r0, hash = hash r0, transactions = txs\<rparr>))
   \<and> ((\<exists>i<parallelThreads.
          mineSingleTask (blockHeader minerAddress (cells h txs) d) (target_of d) i = None) \<longrightarrow>
       mineProofOfWorkParallel minerAddress d h txs = None)"
proof -
  let ?hd = "blockHeader minerAddress (cells h txs) d"
  have all: "\<forall>i<parallelThreads. \<exists>r. mineSingleTask ?hd (target_of d) i = Some r"
    and first: "\<exists>r0. mineSingleTask ?hd (target_of d) 0 = Some r0
              \<and> out = Inr \<lparr>nonce = nonce r0, hash = hash r0, transactions = txs\<rparr>"
    if run: "mineProofOfWorkParallel minerAddress d h txs = Some (evs, out)" for evs out
    using coordinator_result [OF run] by auto
  have none: "mineProofOfWorkParallel minerAddress d h txs = None"
    if "\<exists>i<parallelThreads. mineSingleTask ?hd (target_of d) i = None"
    using that by (auto intro: coordinator_waits)
  from all first none show ?thesis by blast
qed

theorem coordinator_waits_for_all_witness:
  "(\<exists>r. mineSingleTask (blockHeader ''a'' (cells emptyHeap 0) 0) (target_of 0) 3 = Some r)
   \<and> (3::nat) < parallelThreads
   \<and> mineSingleTask (blockHeader ''a'' (cells emptyHeap 0) 65) (target_of 65) 3 = None
   \<and> mineProofOfWorkParallel ''a'' 65 emptyHeap 0 = None"
proof -
  have c: "mineProofOfWorkParallel ''a'' 0 emptyHeap 0 =
             Some ([Log StartingPoW,
                    Log (BlockMined 1 (trial_hash (blockHeader ''a'' (cells emptyHeap 0) 0) 1))],
                   Inr \<lparr>nonce = 1, hash = trial_hash (blockHeader ''a'' (cells emptyHeap 0) 0) 1,
                        transactions = 0\<rparr>)"
    by (rule coordinator_difficulty_0)
  have t: "(3::nat) < parallelThreads"
    by (simp add: parallelThreads_def)
  have n: "mineSingleTask (blockHeader ''a'' (cells emptyHeap 0) 65) (target_of 65) 3 = None"
    by (simp add: mineSingleTask_long_target length_target_of)
  from coordinator_waits_for_all [where minerAddress = "''a''" and d = 0 and h = emptyHeap and txs = 0] c t
  have 1: "\<exists>r. mineSingleTask (blockHeader ''a'' (cells emptyHeap 0) 0) (target_of 0) 3 = Some r"
    by blast
  from coordinator_waits_for_all [where minerAddress = "''a''" and d = 65 and h = emptyHeap and txs = 0] t n
  have 2: "mineProofOfWorkParallel ''a'' 65 emptyHeap 0 = None"
    by blast
  from 1 2 t n show ?thesis by blast
qed

text \<open>
  C4 as stated fails: at difficulty 0 and header \<open>h\<close>, worker 0 returns the valid
  nonce 1 after one trial, and the results the coordinator awaits still hold the nonces
  1000001, 2000001 and 3000001 of the three other workers, which all ran their loops.
\<close>

theorem no_cancellation_counterexample:
  "mineSingleTask ''h'' (target_of 0) 0 = Some \<lparr>nonce = 1, hash = trial_hash ''h'' 1\<rparr>
   \<and> take 0 (trial_hash ''h'' 1) = target_of 0
   \<and> Promise_all (miningTasks ''h'' (target_of 0)) =
       Some [\<lparr>nonce = 1, hash = trial_hash ''h'' 1\<rparr>,
             \<lparr>nonce = 1000001, hash = trial_hash ''h'' 1000001\<rparr>,
             \<lparr>nonce = 2000001, hash = trial_hash ''h'' 2000001\<rparr>,
             \<lparr>nonce = 3000001, hash = trial_hash ''h'' 3000001\<rparr>]"
  by (simp add: target_of_def mineSingleTask_empty_target_0 miningTasks_empty_target)

section \<open>Traces of the retry loop\<close>

lemma waits_simps [simp]:
  "waits [] = []"
  "waits (Log l # evs) = waits evs"
  "waits (HttpGet u # evs) = waits evs"
  "waits (HttpPost u b # evs) = HttpPost u b # waits evs"
  "waits (Sleep ms # evs) = Sleep ms # waits evs"
  "waits (evs @ evs') = waits evs @ waits evs'"
  by (simp_all add: waits_def)

lemma posts_simps [simp]:
  "posts [] = []"
  "posts (Log l # evs) = posts evs"
  "posts (HttpGet u # evs) = posts evs"
  "posts (HttpPost u b # evs) = HttpPost u b # posts evs"
  "posts (Sleep ms # evs) = posts evs"
  "posts (evs @ evs') = posts evs @ posts evs'"
  by (simp_all add: posts_def)

lemma posts_waits: "posts (waits evs) = posts evs"
  by (induction evs) (auto simp: posts_def waits_def)

lemma posts_alternating:
  "posts (alternating (HttpPost u b) (Sleep ms) k) = replicate k (HttpPost u b)"
  by (induction "HttpPost u b" "Sleep ms" k rule: alternating.induct) simp_all

lemma alternating_Suc_not_Nil [simp]:
  "alternating p s (Suc k) \<noteq> []" "[] \<noteq> alternating p s (Suc k)"
  by (cases k; simp)+

lemma retryLoop_done: "retries < a \<Longrightarrow> retryLoop addr post retries delay a = []"
  by (subst retryLoop.simps) simp

lemma retryLoop_accepted:
  "a \<le> retries \<Longrightarrow> post a = Accepted bh \<Longrightarrow>
   retryLoop addr post retries delay a =
     [Log (RetryAttempt a), HttpPost API_URL_MINE (retryBody addr), Log (RetrySucceeded a bh)]"
  by (subst retryLoop.simps) simp

lemma retryLoop_failed:
  "a < retries \<Longrightarrow> post a = Failed msg \<Longrightarrow>
   retryLoop addr post retries delay a =
     [Log (RetryAttempt a), HttpPost API_URL_MINE (retryBody addr), Log (AttemptFailed a msg),
      Log (RetryingIn delay), Sleep delay] @ retryLoop addr post retries delay (Suc a)"
  by (subst retryLoop.simps) simp

lemma retryLoop_failed_last:
  "post retries = Failed msg \<Longrightarrow>
   retryLoop addr post retries delay retries =
     [Log (RetryAttempt retries), HttpPost API_URL_MINE (retryBody addr),
      Log (AttemptFailed retries msg), Log AllRetriesFailed]"
  by (subst retryLoop.simps) (simp add: retryLoop_done)

lemma retryLoop_waits:
  "\<exists>k. waits (retryLoop addr post retries delay a)
          = alternating (HttpPost API_URL_MINE (retryBody addr)) (Sleep delay) k
       \<and> k \<le> Suc retries - a \<and> (a \<le> retries \<longrightarrow> 0 < k)"
proof (induction "Suc retries - a" arbitrary: a)
  case 0
  then have "retries < a" by simp
  then have "retryLoop addr post retries delay a = []"
    by (rule retryLoop_done)
  then show ?case
    using \<open>retries < a\<close> by (intro exI [of _ 0]) simp
next
  case (Suc n)
  then have le: "a \<le> retries" by simp
  let ?P = "HttpPost API_URL_MINE (retryBody addr)"
  show ?case
  proof (cases "post a")
    case (Accepted bh)
    with le have "waits (retryLoop addr post retries delay a) = alternating ?P (Sleep delay) (Suc 0)"
      by (simp add: retryLoop_accepted)
    with le show ?thesis
      by (intro exI [of _ "Suc 0"]) simp
  next
    case (Failed msg)
    show ?thesis
    proof (cases "a < retries")
      case True
      from Suc.hyps(2) have "n = Suc retries - Suc a" by simp
      from Suc.hyps(1) [OF this] True
      obtain k where k: "waits (retryLoop addr post retries delay (Suc a))
                           = alternating ?P (Sleep delay) k"
        "k \<le> Suc retries - Suc a" "0 < k"
        by auto
      from k(3) obtain k' where k': "k = Suc k'"
        by (cases k) auto
      from True Failed k(1) k'
      have "waits (retryLoop addr post retries delay a) = alternating ?P (Sleep delay) (Suc k)"
        by (simp add: retryLoop_failed)
      with k(2) True show ?thesis
        by (intro exI [of _ "Suc k"]) simp
    next
      case False
      with le have "a = retries" by simp
      with Failed have "waits (retryLoop addr post retries delay a) = alternating ?P (Sleep delay) (Suc 0)"
        by (simp add: retryLoop_failed_last)
      with le show ?thesis
        by (intro exI [of _ "Suc 0"]) simp
    qed
  qed
qed

lemma retryLoop_all_failed:
  assumes "\<forall>b. a \<le> b \<and> b \<le> retries \<longrightarrow> (\<exists>msg. post b = Failed msg)" and "a \<le> retries"
  shows "waits (retryLoop addr post retries delay a)
           = alternating (HttpPost API_URL_MINE (retryBody addr)) (Sleep delay) (Suc retries - a)
         \<and> last (retryLoop addr post retries delay a) = Log AllRetriesFailed"
  using assms
proof (induction "retries - a" arbitrary: a)
  case 0
  then have a: "a = retries" by simp
  with 0 obtain msg where "post retries = Failed msg" by auto
  with a show ?case by (simp add: retryLoop_failed_last)
next
  case (Suc n)
  then have lt: "a < retries" by simp
  with Suc.prems obtain msg where f: "post a = Failed msg" by auto
  from Suc.hyps(2) have "n = retries - Suc a" by simp
  from Suc.hyps(1) [OF this] Suc.prems lt
  have ih: "waits (retryLoop addr post retries delay (Suc a))
              = alternating (HttpPost API_URL_MINE (retryBody addr)) (Sleep delay) (Suc retries - Suc a)"
    "last (retryLoop addr post retries delay (Suc a)) = Log AllRetriesFailed"
    by auto
  from lt obtain j where j: "Suc retries - Suc a = Suc j" "Suc retries - a = Suc (Suc j)"
    by (cases "retries - a") auto
  have ne: "retryLoop addr post retries delay (Suc a) \<noteq> []"
    using ih(1) j by auto
  from lt f ih j ne show ?case
    by (simp add: retryLoop_failed)
qed

lemma retryLoop_never_mines: "Log StartingPoW \<notin> set (retryLoop addr post retries delay a)"
proof (induction "Suc retries - a" arbitrary: a)
  case 0
  then show ?case by (simp add: retryLoop_done)
next
  case (Suc n)
  then have le: "a \<le> retries" by simp
  show ?case
  proof (cases "post a")
    case (Accepted bh)
    with le show ?thesis by (simp add: retryLoop_accepted)
  next
    case (Failed msg)
    show ?thesis
    proof (cases "a < retries")
      case True
      from Suc.hyps(2) have "n = Suc retries - Suc a" by simp
      from Suc.hyps(1) [OF this] True Failed show ?thesis
        by (simp add: retryLoop_failed)
    next
      case False
      with le Failed show ?thesis by (simp add: retryLoop_failed_last)
    qed
  qed
qed

section \<open>Traces of \<^verbatim>\<open>mineBlock\<close>\<close>

lemma addReward_empty:
  "cells h txs = [] \<Longrightarrow>
   addReward addr h txs = (h\<lparr>cells := (cells h)(txs := [reward addr])\<rparr>, [Log AddingReward])"
  by (simp add: addReward_def push_def)

lemma addReward_nonempty: "cells h txs \<noteq> [] \<Longrightarrow> addReward addr h txs = (h, [])"
  by (simp add: addReward_def)

text \<open>What a call of \<open>mineBlock\<close> did when it returns.\<close>

lemma mineBlock_result:
  assumes "mineBlock addr d post h txs = Some (h', evs)"
  shows "h' = fst (addReward addr h txs)
         \<and> (\<exists>r0. mineSingleTask (blockHeader addr (cells h' txs) d) (target_of d) 0 = Some r0
              \<and> mineProofOfWorkParallel addr d h' txs =
                  Some ([Log StartingPoW, Log (BlockMined (nonce r0) (hash r0))],
                        Inr \<lparr>nonce = nonce r0, hash = hash r0, transactions = txs\<rparr>)
              \<and> evs = Log RequestingBlock # snd (addReward addr h txs)
                    @ [Log StartingPoW, Log (BlockMined (nonce r0) (hash r0)),
                       HttpPost API_URL_MINE
                         (JObj [(''minerAddress'', JStr addr),
                                (''transactions'', JArr (cells h' txs)),
                                (''nonce'', JNum (int (nonce r0))),
                                (''hash'', JStr (hash r0))])]
                    @ (case post 0 of
                         Accepted bh \<Rightarrow> [Log (BlockAdded bh)]
                       | Failed msg \<Rightarrow> [Log (ErrorMining msg), Log RetryingMining]
                                       @ retryMineBlock addr post 3 12000))"
proof -
  obtain h1 evs1 where ar: "addReward addr h txs = (h1, evs1)"
    by (cases "addReward addr h txs")
  with assms obtain evs2 out where run: "mineProofOfWorkParallel addr d h1 txs = Some (evs2, out)"
    by (cases "mineProofOfWorkParallel addr d h1 txs") (auto simp: mineBlock_def)
  from coordinator_result [OF run] obtain r0
    where r0: "mineSingleTask (blockHeader addr (cells h1 txs) d) (target_of d) 0 = Some r0"
      and evs2: "evs2 = [Log StartingPoW, Log (BlockMined (nonce r0) (hash r0))]"
      and out: "out = Inr \<lparr>nonce = nonce r0, hash = hash r0, transactions = txs\<rparr>"
    by blast
  from assms ar run evs2 out have h': "h' = h1"
    by (auto simp: mineBlock_def split: reply.splits)
  from assms ar run evs2 out
  have "evs = Log RequestingBlock # evs1
              @ [Log StartingPoW, Log (BlockMined (nonce r0) (hash r0)),
                 HttpPost API_URL_MINE
                   (JObj [(''minerAddress'', JStr addr),
                          (''transactions'', JArr (cells h1 txs)),
                          (''nonce'', JNum (int (nonce r0))),
                          (''hash'', JStr (hash r0))])]
              @ (case post 0 of
                   Accepted bh \<Rightarrow> [Log (BlockAdded bh)]
                 | Failed msg \<Rightarrow> [Log (ErrorMining msg), Log RetryingMining]
                                 @ retryMineBlock addr post 3 12000)"
    by (auto simp: mineBlock_def blockData_def split: reply.splits)
  with h' ar r0 run evs2 out show ?thesis by auto
qed

lemma mineBlock_heap:
  assumes "mineBlock addr d post h txs = Some (h', evs)"
  shows "h' = fst (addReward addr h txs)"
  using mineBlock_result [OF assms] by (rule conjunct1)

lemma mineBlock_trace [consumes 1, case_names mined]:
  assumes "mineBlock addr d post h txs = Some (h', evs)"
  obtains r0 where
    "mineSingleTask (blockHeader addr (cells h' txs) d) (target_of d) 0 = Some r0"
    "mineProofOfWorkParallel addr d h' txs =
           Some ([Log StartingPoW, Log (BlockMined (nonce r0) (hash r0))],
                 Inr \<lparr>nonce = nonce r0, hash = hash r0, transactions = txs\<rparr>)"
    "evs = Log RequestingBlock # snd (addReward addr h txs)
               @ [Log StartingPoW, Log (BlockMined (nonce r0) (hash r0)),
                  HttpPost API_URL_MINE
                    (JObj [(''minerAddress'', JStr addr),
                           (''transactions'', JArr (cells h' txs)),
                           (''nonce'', JNum (int (nonce r0))),
                           (''hash'', JStr (hash r0))])]
               @ (case post 0 of
                    Accepted bh \<Rightarrow> [Log (BlockAdded bh)]
                  | Failed msg \<Rightarrow> [Log (ErrorMining msg), Log RetryingMining]
                                  @ retryMineBlock addr post 3 12000)"
proof -
  note r = mineBlock_result [OF assms, THEN conjunct2]
  from r obtain r0 where all:
    "mineSingleTask (blockHeader addr (cells h' txs) d) (target_of d) 0 = Some r0
     \<and> mineProofOfWorkParallel addr d h' txs =
           Some ([Log StartingPoW, Log (BlockMined (nonce r0) (hash r0))],
                 Inr \<lparr>nonce = nonce r0, hash = hash r0, transactions = txs\<rparr>)
     \<and> evs = Log RequestingBlock # snd (addReward addr h txs)
               @ [Log StartingPoW, Log (BlockMined (nonce r0) (hash r0)),
                  HttpPost API_URL_MINE
                    (JObj [(''minerAddress'', JStr addr),
                           (''transactions'', JArr (cells h' txs)),
                           (''nonce'', JNum (int (nonce r0))),
                           (''hash'', JStr (hash r0))])]
               @ (case post 0 of
                    Accepted bh \<Rightarrow> [Log (BlockAdded bh)]
                  | Failed msg \<Rightarrow> [Log (ErrorMining msg), Log RetryingMining]
                                  @ retryMineBlock addr post 3 12000)"
    by (rule exE)
  show thesis
    by (rule that [OF all [THEN conjunct1] all [THEN conjunct2, THEN conjunct1]
          all [THEN conjunct2, THEN conjunct2]])
qed

lemma mineBlock_difficulty_0:
  "mineBlock addr 0 post h txs =
     Some (fst (addReward addr h txs),
           Log RequestingBlock # snd (addReward addr h txs)
           @ [Log StartingPoW,
              Log (BlockMined 1
                    (trial_hash (blockHeader addr (cells (fst (addReward addr h txs)) txs) 0) 1)),
              HttpPost API_URL_MINE
                (JObj [(''minerAddress'', JStr addr),
                       (''transactions'', JArr (cells (fst (addReward addr h txs)) txs)),
                       (''nonce'', JNum 1),
                       (''hash'', JStr (trial_hash
                          (blockHeader addr (cells (fst (addReward addr h txs)) txs) 0) 1))])]
           @ (case post 0 of
                Accepted bh \<Rightarrow> [Log (BlockAdded bh)]
              | Failed msg \<Rightarrow> [Log (ErrorMining msg), Log RetryingMining]
                              @ retryMineBlock addr post 3 12000))"
  by (cases "addReward addr h txs")
     (simp add: mineBlock_def coordinator_difficulty_0 blockData_def split: reply.splits)

lemma retry_all_refused:
  "retryMineBlock addr refuseAll 3 12000 =
     [Log (RetryAttempt 1), HttpPost API_URL_MINE (retryBody addr),
      Log (AttemptFailed 1 ''rejected''), Log (RetryingIn 12000), Sleep 12000,
      Log (RetryAttempt 2), HttpPost API_URL_MINE (retryBody addr),
      Log (AttemptFailed 2 ''rejected''), Log (RetryingIn 12000), Sleep 12000,
      Log (RetryAttempt 3), HttpPost API_URL_MINE (retryBody addr),
      Log (AttemptFailed 3 ''rejected''), Log AllRetriesFailed]"
proof -
  have 3: "retryLoop addr refuseAll 3 12000 3 =
     [Log (RetryAttempt 3), HttpPost API_URL_MINE (retryBody addr),
      Log (AttemptFailed 3 ''rejected''), Log AllRetriesFailed]"
    by (simp add: retryLoop_failed_last refuseAll_def)
  have 2: "retryLoop addr refuseAll 3 12000 2 =
     [Log (RetryAttempt 2), HttpPost API_URL_MINE (retryBody addr),
      Log (AttemptFailed 2 ''rejected''), Log (RetryingIn 12000), Sleep 12000]
     @ retryLoop addr refuseAll 3 12000 (Suc 2)"
    by (rule retryLoop_failed) (simp_all add: refuseAll_def)
  have 1: "retryLoop addr refuseAll 3 12000 1 =
     [Log (RetryAttempt 1), HttpPost API_URL_MINE (retryBody addr),
      Log (AttemptFailed 1 ''rejected''), Log (RetryingIn 12000), Sleep 12000]
     @ retryLoop addr refuseAll 3 12000 (Suc 1)"
    by (rule retryLoop_failed) (simp_all add: refuseAll_def)
  have s: "Suc 2 = 3" "Suc 1 = 2" by simp_all
  show ?thesis
    unfolding retryMineBlock_def 1 s 2 3 by simp
qed

section \<open>The retry bound (C5)\<close>

lemma retry_posts:
  "\<exists>k\<le>retries. waits (retryMineBlock addr post retries delay)
                    = alternating (HttpPost API_URL_MINE (retryBody addr)) (Sleep delay) k
                \<and> posts (retryMineBlock addr post retries delay)
                    = replicate k (HttpPost API_URL_MINE (retryBody addr))"
proof -
  from retryLoop_waits [of addr post retries delay 1]
  obtain k where k: "waits (retryMineBlock addr post retries delay)
      = alternating (HttpPost API_URL_MINE (retryBody addr)) (Sleep delay) k" "k \<le> retries"
    by (auto simp: retryMineBlock_def)
  have "posts (retryMineBlock addr post retries delay)
          = posts (waits (retryMineBlock addr post retries delay))"
    by (simp add: posts_waits)
  also have "\<dots> = replicate k (HttpPost API_URL_MINE (retryBody addr))"
    by (simp add: k(1) posts_alternating)
  finally show ?thesis using k by blast
qed

lemma mines_once:
  assumes "mineBlock addr d post h txs = Some (h', evs)"
  shows "length (filter (\<lambda>e. e = Log StartingPoW) evs) = 1"
proof -
  have r: "filter (\<lambda>e. e = Log StartingPoW) (retryMineBlock addr post 3 12000) = []"
    using retryLoop_never_mines [of addr post 3 12000 1]
    by (auto simp: retryMineBlock_def filter_empty_conv)
  have a: "filter (\<lambda>e. e = Log StartingPoW) (snd (addReward addr h txs)) = []"
    by (simp add: addReward_def)
  from assms show ?thesis
  proof (cases rule: mineBlock_trace)
    case (mined r0)
    with r a show ?thesis
      by (simp split: reply.splits)
  qed
qed

text \<open>
  C5: the retry controller posts at most \<open>retries\<close> times, with one delay of
  \<open>delay\<close> milliseconds between two consecutive attempts and none after the last.
  When every attempt fails it makes exactly \<open>retries\<close> attempts and the last thing it
  does is to report that all retries failed. It never starts a search. \<^verbatim>\<open>mineBlock\<close>
  calls it after a failed submission with 3 retries and 12000 milliseconds, and the
  whole call has searched once.
\<close>

theorem retry_bound:
  "(\<exists>k\<le>retries. waits (retryMineBlock addr post retries delay)
                    = alternating (HttpPost API_URL_MINE (retryBody addr)) (Sleep delay) k)
   \<and> length (posts (retryMineBlock addr post retries delay)) \<le> retries
   \<and> (0 < retries \<and> (\<forall>a. 1 \<le> a \<and> a \<le> retries \<longrightarrow> (\<exists>msg. post a = Failed msg)) \<longrightarrow>
        waits (retryMineBlock addr post retries delay)
          = alternating (HttpPost API_URL_MINE (retryBody addr)) (Sleep delay) retries
        \<and> last (retryMineBlock addr post retries delay) = Log AllRetriesFailed)
   \<and> Log StartingPoW \<notin> set (retryMineBlock addr post retries delay)
   \<and> (\<forall>h' evs msg. mineBlock addr d post h txs = Some (h', evs) \<and> post 0 = Failed msg \<longrightarrow>
        (\<exists>pre. evs = pre @ retryMineBlock addr post 3 12000)
        \<and> length (filter (\<lambda>e. e = Log StartingPoW) evs) = 1)"
proof (intro conjI)
  from retry_posts [of retries addr post delay]
  show "\<exists>k\<le>retries. waits (retryMineBlock addr post retries delay)
                    = alternating (HttpPost API_URL_MINE (retryBody addr)) (Sleep delay) k"
    by auto
  from retry_posts [of retries addr post delay]
  show "length (posts (retryMineBlock addr post retries delay)) \<le> retries"
    by auto
  show "0 < retries \<and> (\<forall>a. 1 \<le> a \<and> a \<le> retries \<longrightarrow> (\<exists>msg. post a = Failed msg)) \<longrightarrow>
        waits (retryMineBlock addr post retries delay)
          = alternating (HttpPost API_URL_MINE (retryBody addr)) (Sleep delay) retries
        \<and> last (retryMineBlock addr post retries delay) = Log AllRetriesFailed"
    using retryLoop_all_failed [of 1 retries post addr delay]
    by (simp add: retryMineBlock_def)
  show "Log StartingPoW \<notin> set (retryMineBlock addr post retries delay)"
    by (simp add: retryMineBlock_def retryLoop_never_mines)
  show "\<forall>h' evs msg. mineBlock addr d post h txs = Some (h', evs) \<and> post 0 = Failed msg \<longrightarrow>
        (\<exists>pre. evs = pre @ retryMineBlock addr post 3 12000)
        \<and> length (filter (\<lambda>e. e = Log StartingPoW) evs) = 1"
  proof (intro allI impI conjI)
    fix h' evs msg
    assume "mineBlock addr d post h txs = Some (h', evs) \<and> post 0 = Failed msg"
    then have run: "mineBlock addr d post h txs = Some (h', evs)" and f: "post 0 = Failed msg"
      by simp_all
    from run show "\<exists>pre. evs = pre @ retryMineBlock addr post 3 12000"
    proof (cases rule: mineBlock_trace)
      case (mined r0)
      with f have "evs = (Log RequestingBlock # snd (addReward addr h txs)
               @ [Log StartingPoW, Log (BlockMined (nonce r0) (hash r0)),
                  HttpPost API_URL_MINE
                    (JObj [(''minerAddress'', JStr addr),
                           (''transactions'', JArr (cells h' txs)),
                           (''nonce'', JNum (int (nonce r0))),
                           (''hash'', JStr (hash r0))]),
                  Log (ErrorMining msg), Log RetryingMining])
               @ retryMineBlock addr post 3 12000"
        by simp
      then show ?thesis by (rule exI)
    qed
    from run show "length (filter (\<lambda>e. e = Log StartingPoW) evs) = 1"
      by (rule mines_once)
  qed
qed

theorem retry_bound_witness:
  "(0::nat) < 3 \<and> refuseAll 1 = Failed ''rejected''
   \<and> waits (retryMineBlock ''a'' refuseAll 3 12000) =
       [HttpPost API_URL_MINE (retryBody ''a''), Sleep 12000,
        HttpPost API_URL_MINE (retryBody ''a''), Sleep 12000,
        HttpPost API_URL_MINE (retryBody ''a'')]
   \<and> last (retryMineBlock ''a'' refuseAll 3 12000) = Log AllRetriesFailed
   \<and> (\<exists>h' evs. mineBlock ''a'' 0 refuseAll emptyHeap 0 = Some (h', evs)
         \<and> length (filter (\<lambda>e. e = Log StartingPoW) evs) = 1)"
proof -
  have f: "(0::nat) < 3 \<and> (\<forall>a. 1 \<le> a \<and> a \<le> 3 \<longrightarrow> (\<exists>msg. refuseAll a = Failed msg))"
    by (simp add: refuseAll_def)
  have alt: "alternating (HttpPost API_URL_MINE (retryBody ''a'')) (Sleep 12000) 3 =
       [HttpPost API_URL_MINE (retryBody ''a''), Sleep 12000,
        HttpPost API_URL_MINE (retryBody ''a''), Sleep 12000,
        HttpPost API_URL_MINE (retryBody ''a'')]"
    by (simp add: numeral_3_eq_3)
  obtain h' evs where run: "mineBlock ''a'' 0 refuseAll emptyHeap 0 = Some (h', evs)"
    by (simp add: mineBlock_difficulty_0)
  have r0: "refuseAll 0 = Failed ''rejected''" "refuseAll 1 = Failed ''rejected''"
    by (simp_all add: refuseAll_def)
  note t = retry_bound [where retries = 3 and post = refuseAll and addr = "''a''" and delay = 12000
      and d = 0 and h = emptyHeap and txs = 0]
  note t3 = t [THEN conjunct2, THEN conjunct2, THEN conjunct1, rule_format]
  note t5 = t [THEN conjunct2, THEN conjunct2, THEN conjunct2, THEN conjunct2, rule_format]
  from t3 [OF f] have 1: "waits (retryMineBlock ''a'' refuseAll 3 12000)
          = alternating (HttpPost API_URL_MINE (retryBody ''a'')) (Sleep 12000) 3"
    and 2: "last (retryMineBlock ''a'' refuseAll 3 12000) = Log AllRetriesFailed"
    by (rule conjunct1, rule conjunct2)
  from run r0(1) have "mineBlock ''a'' 0 refuseAll emptyHeap 0 = Some (h', evs)
      \<and> refuseAll 0 = Failed ''rejected''"
    by (rule conjI)
  from t5 [OF this] have 3: "length (filter (\<lambda>e. e = Log StartingPoW) evs) = 1"
    by (rule conjunct2)
  from run 3 have 4: "\<exists>h' evs. mineBlock ''a'' 0 refuseAll emptyHeap 0 = Some (h', evs)
         \<and> length (filter (\<lambda>e. e = Log StartingPoW) evs) = 1"
    by (intro exI conjI)
  have 5: "(0::nat) < 3" by simp
  from 1 have 6: "waits (retryMineBlock ''a'' refuseAll 3 12000) =
       [HttpPost API_URL_MINE (retryBody ''a''), Sleep 12000,
        HttpPost API_URL_MINE (retryBody ''a''), Sleep 12000,
        HttpPost API_URL_MINE (retryBody ''a'')]"
    by (simp only: alt)
  from 5 r0(2) 6 2 4 show ?thesis
    by (intro conjI)
qed

section \<open>The bodies that are posted (C8)\<close>

text \<open>How many requests the retry loop sends when an attempt is accepted.\<close>

lemma retryLoop_posts_accepted:
  assumes "a \<le> b" and "b \<le> retries" and "post b = Accepted bh"
    and "\<forall>c. a \<le> c \<and> c < b \<longrightarrow> (\<exists>msg. post c = Failed msg)"
  shows "posts (retryLoop addr post retries delay a)
           = replicate (Suc b - a) (HttpPost API_URL_MINE (retryBody addr))"
  using assms
proof (induction "b - a" arbitrary: a)
  case 0
  then have a: "a = b" by simp
  with 0 show ?case by (simp add: retryLoop_accepted)
next
  case (Suc n)
  then have lt: "a < b" by simp
  with Suc.prems obtain msg where f: "post a = Failed msg" by auto
  from lt Suc.prems have ar: "a < retries" by simp
  from Suc.hyps(2) have "n = b - Suc a" by simp
  from Suc.hyps(1) [OF this] Suc.prems lt
  have ih: "posts (retryLoop addr post retries delay (Suc a))
              = replicate (Suc b - Suc a) (HttpPost API_URL_MINE (retryBody addr))"
    by auto
  from lt have "Suc b - a = Suc (Suc b - Suc a)" by simp
  with ar f ih show ?case
    by (simp add: retryLoop_failed)
qed

lemma retry_posts_exact:
  "\<exists>k\<le>retries. posts (retryMineBlock addr post retries delay)
                    = replicate k (HttpPost API_URL_MINE (retryBody addr))
       \<and> (0 < retries \<longrightarrow> 0 < k)
       \<and> ((\<forall>a. 1 \<le> a \<and> a \<le> retries \<longrightarrow> (\<exists>msg. post a = Failed msg)) \<longrightarrow> k = retries)
       \<and> (\<forall>a bh. 1 \<le> a \<and> a \<le> retries \<and> post a = Accepted bh
                  \<and> (\<forall>b. 1 \<le> b \<and> b < a \<longrightarrow> (\<exists>msg. post b = Failed msg)) \<longrightarrow> k = a)"
proof -
  let ?P = "HttpPost API_URL_MINE (retryBody addr)"
  from retryLoop_waits [of addr post retries delay 1]
  obtain k where k: "waits (retryMineBlock addr post retries delay)
      = alternating ?P (Sleep delay) k" "k \<le> retries" "0 < retries \<longrightarrow> 0 < k"
    by (auto simp: retryMineBlock_def)
  have "posts (retryMineBlock addr post retries delay)
          = posts (waits (retryMineBlock addr post retries delay))"
    by (simp add: posts_waits)
  also have "\<dots> = replicate k ?P"
    by (simp add: k(1) posts_alternating)
  finally have p: "posts (retryMineBlock addr post retries delay) = replicate k ?P" .
  have all: "k = retries" if f: "\<forall>a. 1 \<le> a \<and> a \<le> retries \<longrightarrow> (\<exists>msg. post a = Failed msg)"
  proof (cases "0 < retries")
    case True
    with f have "waits (retryMineBlock addr post retries delay)
        = alternating ?P (Sleep delay) retries"
      using retryLoop_all_failed [of 1 retries post addr delay]
      by (simp add: retryMineBlock_def)
    then have "posts (waits (retryMineBlock addr post retries delay)) = replicate retries ?P"
      by (simp add: posts_alternating)
    with p have "replicate k ?P = replicate retries ?P"
      by (simp add: posts_waits)
    then have "length (replicate k ?P) = length (replicate retries ?P)"
      by simp
    then show ?thesis by simp
  next
    case False
    with k(2) show ?thesis by simp
  qed
  have acc: "k = a" if a: "1 \<le> a \<and> a \<le> retries \<and> post a = Accepted bh
                  \<and> (\<forall>b. 1 \<le> b \<and> b < a \<longrightarrow> (\<exists>msg. post b = Failed msg))" for a bh
  proof -
    from a have "posts (retryLoop addr post retries delay 1) = replicate (Suc a - 1) ?P"
      by (intro retryLoop_posts_accepted [where bh = bh]) simp_all
    with p have "replicate k ?P = replicate a ?P"
      by (simp add: retryMineBlock_def)
    then have "length (replicate k ?P) = length (replicate a ?P)"
      by simp
    then show ?thesis by simp
  qed
  from k(2) p k(3) all acc show ?thesis
    by blast
qed

text \<open>
  C8: every POST of the retry controller goes to the mining endpoint with a body that
  holds \<open>minerAddress\<close> and nothing else, while the first POST of \<^verbatim>\<open>mineBlock\<close>
  goes to the same endpoint with \<open>minerAddress\<close>, \<open>transactions\<close>, \<open>nonce\<close> and
  \<open>hash\<close>. The controller sends one such request per attempt: at least one, as many
  as there are retries when every attempt is refused, and as many as the number of the
  first accepted attempt otherwise. A call of \<^verbatim>\<open>mineBlock\<close> sends the full body
  first; when that submission is accepted it sends nothing more, and when it is refused
  it sends the short body once per attempt of the 3 retries, in the same way.
\<close>

theorem retry_payload:
  "(\<exists>k\<le>retries. posts (retryMineBlock addr post retries delay)
                    = replicate k (HttpPost API_URL_MINE (JObj [(''minerAddress'', JStr addr)]))
       \<and> (0 < retries \<longrightarrow> 0 < k)
       \<and> ((\<forall>a. 1 \<le> a \<and> a \<le> retries \<longrightarrow> (\<exists>msg. post a = Failed msg)) \<longrightarrow> k = retries)
       \<and> (\<forall>a bh. 1 \<le> a \<and> a \<le> retries \<and> post a = Accepted bh
                  \<and> (\<forall>b. 1 \<le> b \<and> b < a \<longrightarrow> (\<exists>msg. post b = Failed msg)) \<longrightarrow> k = a))
   \<and> (\<forall>h' evs. mineBlock addr d post h txs = Some (h', evs) \<longrightarrow>
        (\<exists>(r::MiningResult) k. posts evs =
                  HttpPost API_URL_MINE
                    (JObj [(''minerAddress'', JStr addr),
                           (''transactions'', JArr (cells h' txs)),
                           (''nonce'', JNum (int (nonce r))),
                           (''hash'', JStr (hash r))])
                  # replicate k (HttpPost API_URL_MINE (JObj [(''minerAddress'', JStr addr)]))
              \<and> k \<le> 3 \<and> ((\<exists>bh. post 0 = Accepted bh) \<longrightarrow> k = 0)
              \<and> ((\<exists>msg. post 0 = Failed msg) \<longrightarrow>
                   0 < k
                   \<and> ((\<forall>a. 1 \<le> a \<and> a \<le> 3 \<longrightarrow> (\<exists>msg. post a = Failed msg)) \<longrightarrow> k = 3)
                   \<and> (\<forall>a bh. 1 \<le> a \<and> a \<le> 3 \<and> post a = Accepted bh
                          \<and> (\<forall>b. 1 \<le> b \<and> b < a \<longrightarrow> (\<exists>msg. post b = Failed msg)) \<longrightarrow> k = a))))"
proof (rule conjI)
  from retry_posts_exact [of retries addr post delay]
  show "\<exists>k\<le>retries. posts (retryMineBlock addr post retries delay)
                    = replicate k (HttpPost API_URL_MINE (JObj [(''minerAddress'', JStr addr)]))
       \<and> (0 < retries \<longrightarrow> 0 < k)
       \<and> ((\<forall>a. 1 \<le> a \<and> a \<le> retries \<longrightarrow> (\<exists>msg. post a = Failed msg)) \<longrightarrow> k = retries)
       \<and> (\<forall>a bh. 1 \<le> a \<and> a \<le> retries \<and> post a = Accepted bh
                  \<and> (\<forall>b. 1 \<le> b \<and> b < a \<longrightarrow> (\<exists>msg. post b = Failed msg)) \<longrightarrow> k = a)"
    by (simp only: retryBody_def)
next
  have "\<exists>(r::MiningResult) k. posts evs =
                  HttpPost API_URL_MINE
                    (JObj [(''minerAddress'', JStr addr),
                           (''transactions'', JArr (cells h' txs)),
                           (''nonce'', JNum (int (nonce r))),
                           (''hash'', JStr (hash r))])
                  # replicate k (HttpPost API_URL_MINE (JObj [(''minerAddress'', JStr addr)]))
              \<and> k \<le> 3 \<and> ((\<exists>bh. post 0 = Accepted bh) \<longrightarrow> k = 0)
              \<and> ((\<exists>msg. post 0 = Failed msg) \<longrightarrow>
                   0 < k
                   \<and> ((\<forall>a. 1 \<le> a \<and> a \<le> 3 \<longrightarrow> (\<exists>msg. post a = Failed msg)) \<longrightarrow> k = 3)
                   \<and> (\<forall>a bh. 1 \<le> a \<and> a \<le> 3 \<and> post a = Accepted bh
                          \<and> (\<forall>b. 1 \<le> b \<and> b < a \<longrightarrow> (\<exists>msg. post b = Failed msg)) \<longrightarrow> k = a))"
    if run: "mineBlock addr d post h txs = Some (h', evs)" for h' evs
    using run
  proof (cases rule: mineBlock_trace)
    case (mined r0)
    have a: "posts (snd (addReward addr h txs)) = []"
      by (simp add: addReward_def)
    show ?thesis
    proof (cases "post 0")
      case (Accepted bh)
      with mined(3) a have "posts evs =
                  HttpPost API_URL_MINE
                    (JObj [(''minerAddress'', JStr addr),
                           (''transactions'', JArr (cells h' txs)),
                           (''nonce'', JNum (int (nonce r0))),
                           (''hash'', JStr (hash r0))])
                  # replicate (0::nat) (HttpPost API_URL_MINE (JObj [(''minerAddress'', JStr addr)]))
              \<and> (0::nat) \<le> 3 \<and> ((\<exists>bh. post 0 = Accepted bh) \<longrightarrow> (0::nat) = 0)
              \<and> ((\<exists>msg. post 0 = Failed msg) \<longrightarrow>
                   0 < (0::nat)
                   \<and> ((\<forall>a. 1 \<le> a \<and> a \<le> 3 \<longrightarrow> (\<exists>msg. post a = Failed msg)) \<longrightarrow> (0::nat) = 3)
                   \<and> (\<forall>a bh. 1 \<le> a \<and> a \<le> 3 \<and> post a = Accepted bh
                          \<and> (\<forall>b. 1 \<le> b \<and> b < a \<longrightarrow> (\<exists>msg. post b = Failed msg)) \<longrightarrow> (0::nat) = a))"
        by simp
      then show ?thesis
        by - (rule exI, rule exI, assumption)
    next
      case (Failed msg)
      from retry_posts_exact [of 3 addr post 12000] obtain k where k: "k \<le> 3"
        "posts (retryMineBlock addr post 3 12000)
           = replicate k (HttpPost API_URL_MINE (JObj [(''minerAddress'', JStr addr)]))"
        "0 < k"
        "(\<forall>a. 1 \<le> a \<and> a \<le> 3 \<longrightarrow> (\<exists>msg. post a = Failed msg)) \<longrightarrow> k = 3"
        "\<forall>a bh. 1 \<le> a \<and> a \<le> 3 \<and> post a = Accepted bh
                  \<and> (\<forall>b. 1 \<le> b \<and> b < a \<longrightarrow> (\<exists>msg. post b = Failed msg)) \<longrightarrow> k = a"
        by (auto simp: retryBody_def)
      from Failed mined(3) a k(2) have p: "posts evs =
                  HttpPost API_URL_MINE
                    (JObj [(''minerAddress'', JStr addr),
                           (''transactions'', JArr (cells h' txs)),
                           (''nonce'', JNum (int (nonce r0))),
                           (''hash'', JStr (hash r0))])
                  # replicate k (HttpPost API_URL_MINE (JObj [(''minerAddress'', JStr addr)]))"
        by simp
      from Failed have n: "(\<exists>bh. post 0 = Accepted bh) \<longrightarrow> k = 0"
        by simp
      from k(3) k(4) k(5) have q: "((\<exists>msg. post 0 = Failed msg) \<longrightarrow>
                   0 < k
                   \<and> ((\<forall>a. 1 \<le> a \<and> a \<le> 3 \<longrightarrow> (\<exists>msg. post a = Failed msg)) \<longrightarrow> k = 3)
                   \<and> (\<forall>a bh. 1 \<le> a \<and> a \<le> 3 \<and> post a = Accepted bh
                          \<and> (\<forall>b. 1 \<le> b \<and> b < a \<longrightarrow> (\<exists>msg. post b = Failed msg)) \<longrightarrow> k = a))"
        by - (rule impI, (rule conjI, assumption)+, assumption)
      from p k(1) n q have "posts evs =
                  HttpPost API_URL_MINE
                    (JObj [(''minerAddress'', JStr addr),
                           (''transactions'', JArr (cells h' txs)),
                           (''nonce'', JNum (int (nonce r0))),
                           (''hash'', JStr (hash r0))])
                  # replicate k (HttpPost API_URL_MINE (JObj [(''minerAddress'', JStr addr)]))
              \<and> k \<le> 3 \<and> ((\<exists>bh. post 0 = Accepted bh) \<longrightarrow> k = 0)
              \<and> ((\<exists>msg. post 0 = Failed msg) \<longrightarrow>
                   0 < k
                   \<and> ((\<forall>a. 1 \<le> a \<and> a \<le> 3 \<longrightarrow> (\<exists>msg. post a = Failed msg)) \<longrightarrow> k = 3)
                   \<and> (\<forall>a bh. 1 \<le> a \<and> a \<le> 3 \<and> post a = Accepted bh
                          \<and> (\<forall>b. 1 \<le> b \<and> b < a \<longrightarrow> (\<exists>msg. post b = Failed msg)) \<longrightarrow> k = a))"
        by - ((rule conjI, assumption)+, assumption)
      then show ?thesis
        by - (rule exI, rule exI, assumption)
    qed
  qed
  then show "\<forall>h' evs. mineBlock addr d post h txs = Some (h', evs) \<longrightarrow>
        (\<exists>(r::MiningResult) k. posts evs =
                  HttpPost API_URL_MINE
                    (JObj [(''minerAddress'', JStr addr),
                           (''transactions'', JArr (cells h' txs)),
                           (''nonce'', JNum (int (nonce r))),
                           (''hash'', JStr (hash r))])
                  # replicate k (HttpPost API_URL_MINE (JObj [(''minerAddress'', JStr addr)]))
              \<and> k \<le> 3 \<and> ((\<exists>bh. post 0 = Accepted bh) \<longrightarrow> k = 0)
              \<and> ((\<exists>msg. post 0 = Failed msg) \<longrightarrow>
                   0 < k
                   \<and> ((\<forall>a. 1 \<le> a \<and> a \<le> 3 \<longrightarrow> (\<exists>msg. post a = Failed msg)) \<longrightarrow> k = 3)
                   \<and> (\<forall>a bh. 1 \<le> a \<and> a \<le> 3 \<and> post a = Accepted bh
                          \<and> (\<forall>b. 1 \<le> b \<and> b < a \<longrightarrow> (\<exists>msg. post b = Failed msg)) \<longrightarrow> k = a)))"
    by (intro allI impI)
qed

theorem retry_payload_witness:
  "(\<exists>h' evs. mineBlock ''a'' 0 acceptAll emptyHeap 0 = Some (h', evs) \<and> length (posts evs) = 1)
   \<and> acceptAll 0 = Accepted ''00ab''
   \<and> refuseAll 0 = Failed ''rejected''
   \<and> (\<exists>h' evs (r::MiningResult). mineBlock ''a'' 0 refuseAll emptyHeap 0 = Some (h', evs)
         \<and> posts evs =
             [HttpPost API_URL_MINE
               (JObj [(''minerAddress'', JStr ''a''),
                      (''transactions'', JArr (cells h' 0)),
                      (''nonce'', JNum (int (nonce r))),
                      (''hash'', JStr (hash r))]),
              HttpPost API_URL_MINE (JObj [(''minerAddress'', JStr ''a'')]),
              HttpPost API_URL_MINE (JObj [(''minerAddress'', JStr ''a'')]),
              HttpPost API_URL_MINE (JObj [(''minerAddress'', JStr ''a'')])])
   \<and> posts (retryMineBlock ''a'' refuseAll 3 12000) =
         [HttpPost API_URL_MINE (JObj [(''minerAddress'', JStr ''a'')]),
          HttpPost API_URL_MINE (JObj [(''minerAddress'', JStr ''a'')]),
          HttpPost API_URL_MINE (JObj [(''minerAddress'', JStr ''a'')])]
   \<and> acceptAt 2 1 = Failed ''rejected'' \<and> acceptAt 2 2 = Accepted ''00ab''
   \<and> posts (retryMineBlock ''a'' (acceptAt 2) 3 12000) =
         [HttpPost API_URL_MINE (JObj [(''minerAddress'', JStr ''a'')]),
          HttpPost API_URL_MINE (JObj [(''minerAddress'', JStr ''a'')])]"
proof -
  obtain h1 evs1 where run1: "mineBlock ''a'' 0 acceptAll emptyHeap 0 = Some (h1, evs1)"
    by (simp add: mineBlock_difficulty_0)
  obtain h2 evs2 where run2: "mineBlock ''a'' 0 refuseAll emptyHeap 0 = Some (h2, evs2)"
    by (simp add: mineBlock_difficulty_0)
  have acc: "acceptAll 0 = Accepted ''00ab''"
    by (simp add: acceptAll_def)
  have ref: "refuseAll 0 = Failed ''rejected''"
    by (simp add: refuseAll_def)
  have refs: "\<forall>a. 1 \<le> a \<and> a \<le> 3 \<longrightarrow> (\<exists>msg. refuseAll a = Failed msg)"
    by (simp add: refuseAll_def)
  have at: "acceptAt 2 1 = Failed ''rejected''" "acceptAt 2 2 = Accepted ''00ab''"
    by (simp_all add: acceptAt_def)
  have first: "1 \<le> (2::nat) \<and> (2::nat) \<le> 3 \<and> acceptAt 2 2 = Accepted ''00ab''
      \<and> (\<forall>b. 1 \<le> b \<and> b < 2 \<longrightarrow> (\<exists>msg. acceptAt 2 b = Failed msg))"
    by (auto simp: acceptAt_def)
  have three: "replicate 3 x = [x, x, x]" and two: "replicate 2 x = [x, x]" for x :: event
    by (simp_all add: numeral_3_eq_3 numeral_2_eq_2)
  note t1 = retry_payload [where addr = "''a''" and d = 0 and post = acceptAll and h = emptyHeap
      and txs = 0, THEN conjunct2, rule_format, OF run1]
  note t2 = retry_payload [where addr = "''a''" and d = 0 and post = refuseAll and h = emptyHeap
      and txs = 0, THEN conjunct2, rule_format, OF run2]
  note t3 = retry_payload [where addr = "''a''" and post = refuseAll and retries = 3
      and delay = 12000, THEN conjunct1]
  note t4 = retry_payload [where addr = "''a''" and post = "acceptAt 2" and retries = 3
      and delay = 12000, THEN conjunct1]
  from t1 obtain r1 :: MiningResult and k1 where p1: "posts evs1 =
             HttpPost API_URL_MINE
               (JObj [(''minerAddress'', JStr ''a''),
                      (''transactions'', JArr (cells h1 0)),
                      (''nonce'', JNum (int (nonce r1))),
                      (''hash'', JStr (hash r1))])
             # replicate k1 (HttpPost API_URL_MINE (JObj [(''minerAddress'', JStr ''a'')]))"
    and z: "(\<exists>bh. acceptAll 0 = Accepted bh) \<longrightarrow> k1 = 0"
    by (elim exE conjE)
  from z acc have "k1 = 0"
    by simp
  then have "length (posts evs1) = 1"
    by (simp add: p1)
  with run1 have 1: "\<exists>h' evs. mineBlock ''a'' 0 acceptAll emptyHeap 0 = Some (h', evs)
      \<and> length (posts evs) = 1"
    by (intro exI conjI)
  from t2 obtain r :: MiningResult and k where p2: "posts evs2 =
             HttpPost API_URL_MINE
               (JObj [(''minerAddress'', JStr ''a''),
                      (''transactions'', JArr (cells h2 0)),
                      (''nonce'', JNum (int (nonce r))),
                      (''hash'', JStr (hash r))])
             # replicate k (HttpPost API_URL_MINE (JObj [(''minerAddress'', JStr ''a'')]))"
    and f2: "(\<exists>msg. refuseAll 0 = Failed msg) \<longrightarrow>
               0 < k
               \<and> ((\<forall>a. 1 \<le> a \<and> a \<le> 3 \<longrightarrow> (\<exists>msg. refuseAll a = Failed msg)) \<longrightarrow> k = 3)
               \<and> (\<forall>a bh. 1 \<le> a \<and> a \<le> 3 \<and> refuseAll a = Accepted bh
                      \<and> (\<forall>b. 1 \<le> b \<and> b < a \<longrightarrow> (\<exists>msg. refuseAll b = Failed msg)) \<longrightarrow> k = a)"
    by (elim exE conjE)
  from ref have "\<exists>msg. refuseAll 0 = Failed msg"
    by (rule exI)
  from f2 [THEN mp, OF this, THEN conjunct2, THEN conjunct1, THEN mp, OF refs]
  have "k = 3" .
  with p2 have "posts evs2 =
             [HttpPost API_URL_MINE
               (JObj [(''minerAddress'', JStr ''a''),
                      (''transactions'', JArr (cells h2 0)),
                      (''nonce'', JNum (int (nonce r))),
                      (''hash'', JStr (hash r))]),
              HttpPost API_URL_MINE (JObj [(''minerAddress'', JStr ''a'')]),
              HttpPost API_URL_MINE (JObj [(''minerAddress'', JStr ''a'')]),
              HttpPost API_URL_MINE (JObj [(''minerAddress'', JStr ''a'')])]"
    by (simp only: three)
  with run2 have 2: "\<exists>h' evs (r::MiningResult). mineBlock ''a'' 0 refuseAll emptyHeap 0 = Some (h', evs)
         \<and> posts evs =
             [HttpPost API_URL_MINE
               (JObj [(''minerAddress'', JStr ''a''),
                      (''transactions'', JArr (cells h' 0)),
                      (''nonce'', JNum (int (nonce r))),
                      (''hash'', JStr (hash r))]),
              HttpPost API_URL_MINE (JObj [(''minerAddress'', JStr ''a'')]),
              HttpPost API_URL_MINE (JObj [(''minerAddress'', JStr ''a'')]),
              HttpPost API_URL_MINE (JObj [(''minerAddress'', JStr ''a'')])]"
    by (intro exI conjI)
  from t3 obtain k3 where p3: "posts (retryMineBlock ''a'' refuseAll 3 12000)
        = replicate k3 (HttpPost API_URL_MINE (JObj [(''minerAddress'', JStr ''a'')]))"
    and f3: "(\<forall>a. 1 \<le> a \<and> a \<le> 3 \<longrightarrow> (\<exists>msg. refuseAll a = Failed msg)) \<longrightarrow> k3 = 3"
    by (elim exE conjE)
  from f3 [THEN mp, OF refs] p3
  have 3: "posts (retryMineBlock ''a'' refuseAll 3 12000) =
         [HttpPost API_URL_MINE (JObj [(''minerAddress'', JStr ''a'')]),
          HttpPost API_URL_MINE (JObj [(''minerAddress'', JStr ''a'')]),
          HttpPost API_URL_MINE (JObj [(''minerAddress'', JStr ''a'')])]"
    by (simp only: three)
  from t4 obtain k4 where p4: "posts (retryMineBlock ''a'' (acceptAt 2) 3 12000)
        = replicate k4 (HttpPost API_URL_MINE (JObj [(''minerAddress'', JStr ''a'')]))"
    and f4: "\<forall>a bh. 1 \<le> a \<and> a \<le> 3 \<and> acceptAt 2 a = Accepted bh
                  \<and> (\<forall>b. 1 \<le> b \<and> b < a \<longrightarrow> (\<exists>msg. acceptAt 2 b = Failed msg)) \<longrightarrow> k4 = a"
    by (elim exE conjE)
  from f4 [THEN spec, THEN spec, THEN mp, OF first] p4
  have 4: "posts (retryMineBlock ''a'' (acceptAt 2) 3 12000) =
         [HttpPost API_URL_MINE (JObj [(''minerAddress'', JStr ''a'')]),
          HttpPost API_URL_MINE (JObj [(''minerAddress'', JStr ''a'')])]"
    by (simp only: two)
  from 1 acc ref 2 3 at 4 show ?thesis
    by (intro conjI)
qed

section \<open>The block reward (C2, C10)\<close>

lemma worker_hash:
  "mineSingleTask header target i = Some r \<Longrightarrow> hash r = sha256_hex (header @ decimal (nonce r))"
  using mineLoop_found [of header target "startNonce i" r]
  by (simp add: mineSingleTask_def found_def trial_hash_def)

text \<open>
  C2: with an empty transaction list the list becomes one Reward Transaction whose
  \<open>Target\<close> is the miner address; a list that is not empty is left as it is and no
  reward is logged. The reward is there before the header is serialized: the hash that
  \<^verbatim>\<open>mineBlock\<close> submits is the digest of the header of the final list followed by the
  nonce, and the submitted transactions are the final list.
\<close>

theorem reward_when_empty:
  "(cells h txs = [] \<longrightarrow>
       cells (fst (addReward addr h txs)) txs = [reward addr]
       \<and> length (cells (fst (addReward addr h txs)) txs) = 1
       \<and> (\<exists>fields. reward addr = JObj fields
              \<and> map_of fields ''Target'' = Some (JStr addr)
              \<and> map_of fields ''BlockReward'' = Some (JBool True)))
   \<and> (cells h txs \<noteq> [] \<longrightarrow> addReward addr h txs = (h, []))
   \<and> (\<forall>h' evs. mineBlock addr d post h txs = Some (h', evs) \<longrightarrow>
         cells h' txs = (if cells h txs = [] then [reward addr] else cells h txs)
         \<and> (\<exists>r. mineSingleTask (blockHeader addr (cells h' txs) d) (target_of d) 0 = Some r
                \<and> hash r = sha256_hex (blockHeader addr (cells h' txs) d @ decimal (nonce r))
                \<and> HttpPost API_URL_MINE
                     (JObj [(''minerAddress'', JStr addr),
                            (''transactions'', JArr (cells h' txs)),
                            (''nonce'', JNum (int (nonce r))),
                            (''hash'', JStr (hash r))]) \<in> set evs))"
proof (intro conjI allI impI)
  assume e: "cells h txs = []"
  then show "cells (fst (addReward addr h txs)) txs = [reward addr]"
    by (simp add: addReward_empty)
  from e show "length (cells (fst (addReward addr h txs)) txs) = 1"
    by (simp add: addReward_empty)
  show "\<exists>fields. reward addr = JObj fields
              \<and> map_of fields ''Target'' = Some (JStr addr)
              \<and> map_of fields ''BlockReward'' = Some (JBool True)"
    by (simp add: reward_def)
next
  assume "cells h txs \<noteq> []"
  then show "addReward addr h txs = (h, [])"
    by (rule addReward_nonempty)
next
  fix h' evs
  assume run: "mineBlock addr d post h txs = Some (h', evs)"
  from mineBlock_heap [OF run]
  show "cells h' txs = (if cells h txs = [] then [reward addr] else cells h txs)"
    by (simp add: addReward_def push_def)
  from run
  show "\<exists>r. mineSingleTask (blockHeader addr (cells h' txs) d) (target_of d) 0 = Some r
                \<and> hash r = sha256_hex (blockHeader addr (cells h' txs) d @ decimal (nonce r))
                \<and> HttpPost API_URL_MINE
                     (JObj [(''minerAddress'', JStr addr),
                            (''transactions'', JArr (cells h' txs)),
                            (''nonce'', JNum (int (nonce r))),
                            (''hash'', JStr (hash r))]) \<in> set evs"
  proof (cases rule: mineBlock_trace)
    case (mined r0)
    from mined(1) have "hash r0 = sha256_hex (blockHeader addr (cells h' txs) d @ decimal (nonce r0))"
      by (rule worker_hash)
    moreover from mined(3) have "HttpPost API_URL_MINE
                     (JObj [(''minerAddress'', JStr addr),
                            (''transactions'', JArr (cells h' txs)),
                            (''nonce'', JNum (int (nonce r0))),
                            (''hash'', JStr (hash r0))]) \<in> set evs"
      by simp
    ultimately have "mineSingleTask (blockHeader addr (cells h' txs) d) (target_of d) 0 = Some r0
                \<and> hash r0 = sha256_hex (blockHeader addr (cells h' txs) d @ decimal (nonce r0))
                \<and> HttpPost API_URL_MINE
                     (JObj [(''minerAddress'', JStr addr),
                            (''transactions'', JArr (cells h' txs)),
                            (''nonce'', JNum (int (nonce r0))),
                            (''hash'', JStr (hash r0))]) \<in> set evs"
      using mined(1) by (intro conjI)
    then show ?thesis
      by (rule exI)
  qed
qed

theorem reward_when_empty_witness:
  "cells emptyHeap 0 = []
   \<and> cells (fst (addReward ''abc123'' emptyHeap 0)) 0 = [reward ''abc123'']
   \<and> cells (push emptyHeap 0 tx1) 0 \<noteq> []
   \<and> addReward ''abc123'' (push emptyHeap 0 tx1) 0 = (push emptyHeap 0 tx1, [])
   \<and> (\<exists>h' evs. mineBlock ''abc123'' 0 acceptAll emptyHeap 0 = Some (h', evs)
          \<and> cells h' 0 = [reward ''abc123''])
   \<and> (\<exists>h' evs. mineBlock ''abc123'' 0 acceptAll (push emptyHeap 0 tx1) 0 = Some (h', evs)
          \<and> cells h' 0 = [tx1])"
proof -
  have e: "cells emptyHeap 0 = []"
    by (simp add: emptyHeap_def)
  have n: "cells (push emptyHeap 0 tx1) 0 = [tx1]"
    by (simp add: emptyHeap_def push_def)
  then have n': "cells (push emptyHeap 0 tx1) 0 \<noteq> []"
    by simp
  obtain h1 evs1 where run1: "mineBlock ''abc123'' 0 acceptAll emptyHeap 0 = Some (h1, evs1)"
    by (simp add: mineBlock_difficulty_0)
  obtain h2 evs2 where
    run2: "mineBlock ''abc123'' 0 acceptAll (push emptyHeap 0 tx1) 0 = Some (h2, evs2)"
    by (simp add: mineBlock_difficulty_0)
  note a = reward_when_empty [where h = emptyHeap and txs = 0 and addr = "''abc123''" and d = 0
      and post = acceptAll]
  note b = reward_when_empty [where h = "push emptyHeap 0 tx1" and txs = 0
      and addr = "''abc123''" and d = 0 and post = acceptAll]
  from a [THEN conjunct1, rule_format, OF e]
  have 1: "cells (fst (addReward ''abc123'' emptyHeap 0)) 0 = [reward ''abc123'']"
    by (rule conjunct1)
  from b [THEN conjunct2, THEN conjunct1, rule_format, OF n']
  have 2: "addReward ''abc123'' (push emptyHeap 0 tx1) 0 = (push emptyHeap 0 tx1, [])" .
  from a [THEN conjunct2, THEN conjunct2, rule_format, OF run1, THEN conjunct1] e
  have "cells h1 0 = [reward ''abc123'']"
    by simp
  with run1 have 3: "\<exists>h' evs. mineBlock ''abc123'' 0 acceptAll emptyHeap 0 = Some (h', evs)
          \<and> cells h' 0 = [reward ''abc123'']"
    by (intro exI conjI)
  from b [THEN conjunct2, THEN conjunct2, rule_format, OF run2, THEN conjunct1] n
  have "cells h2 0 = [tx1]"
    by simp
  with run2 have 4: "\<exists>h' evs. mineBlock ''abc123'' 0 acceptAll (push emptyHeap 0 tx1) 0 = Some (h', evs)
          \<and> cells h' 0 = [tx1]"
    by (intro exI conjI)
  from e 1 n' 2 3 4 show ?thesis
    by (intro conjI)
qed



section \<open>The timeline of a round\<close>

lemma duration_simps [simp]:
  "duration [] = 0"
  "duration (s # segs) = len s + duration segs"
  "duration (segs @ segs') = duration segs + duration segs'"
  by (simp_all add: duration_def)

lemma len_le_duration: "s \<in> set segs \<Longrightarrow> len s \<le> duration segs"
  by (induction segs) auto

lemma fires_before_end:
  assumes "Idle n \<in> set segs" and "I < n" and "due \<le> t + I"
  shows "\<exists>u. fireTime due t segs = Some u \<and> due \<le> u \<and> t \<le> u \<and> u < t + duration segs"
  using assms
proof (induction segs arbitrary: t)
  case Nil
  then show ?case by simp
next
  case (Cons s segs)
  show ?case
  proof (cases s)
    case (Busy m)
    with Cons.prems have "Idle n \<in> set segs" and "due \<le> (t + m) + I"
      by auto
    from Cons.IH [OF this(1) Cons.prems(2) this(2)] Busy show ?thesis
      by auto
  next
    case (Idle m)
    show ?thesis
    proof (cases "due < t + m")
      case True
      from Cons.prems(1) have "n \<le> duration (s # segs)"
        using len_le_duration [of "Idle n" "s # segs"] by simp
      with Cons.prems(2) have "0 < duration (s # segs)"
        by linarith
      with True Idle show ?thesis
        by auto
    next
      case False
      with Cons.prems Idle have "Idle n \<in> set segs" and "due \<le> (t + m) + I"
        by auto
      from Cons.IH [OF this(1) Cons.prems(2) this(2)] Idle False show ?thesis
        by auto
    qed
  qed
qed

lemma fires_while_waiting:
  "fireTime due t segs = Some u \<Longrightarrow>
   \<exists>pre n post. segs = pre @ Idle n # post
      \<and> t + duration pre \<le> u \<and> u \<le> t + duration pre + n \<and> due \<le> u"
proof (induction segs arbitrary: t)
  case Nil
  then show ?case by simp
next
  case (Cons s segs)
  show ?case
  proof (cases "\<exists>m. s = Idle m \<and> due < t + m")
    case True
    then obtain m where m: "s = Idle m" "due < t + m"
      by blast
    with Cons.prems have "u = max due t"
      by simp
    with m have "s # segs = [] @ Idle m # segs \<and> t + duration [] \<le> u
        \<and> u \<le> t + duration [] + m \<and> due \<le> u"
      by auto
    then show ?thesis
      by blast
  next
    case False
    with Cons.prems have "fireTime due (t + len s) segs = Some u"
      by (cases s) auto
    from Cons.IH [OF this] obtain pre n post where
      "segs = pre @ Idle n # post" "t + len s + duration pre \<le> u"
      "u \<le> t + len s + duration pre + n" "due \<le> u"
      by blast
    then have "s # segs = (s # pre) @ Idle n # post \<and> t + duration (s # pre) \<le> u
        \<and> u \<le> t + duration (s # pre) + n \<and> due \<le> u"
      by (simp add: ac_simps)
    then show ?thesis
      by blast
  qed
qed

lemma retry_sleeps:
  assumes "post 1 = Failed msg"
  shows "Sleep 12000 \<in> set (retryMineBlock addr post 3 12000)"
proof -
  have "retryLoop addr post 3 12000 1 =
     [Log (RetryAttempt 1), HttpPost API_URL_MINE (retryBody addr), Log (AttemptFailed 1 msg),
      Log (RetryingIn 12000), Sleep 12000] @ retryLoop addr post 3 12000 (Suc 1)"
    using assms by (intro retryLoop_failed) simp_all
  then show ?thesis
    unfolding retryMineBlock_def by simp
qed

lemma mineBlock_sleeps:
  assumes run: "mineBlock addr d post h txs = Some (h', evs)"
    and f0: "post 0 = Failed msg0" and f1: "post 1 = Failed msg1"
  shows "Sleep 12000 \<in> set evs"
  using run
proof (cases rule: mineBlock_trace)
  case (mined r0)
  from f1 have "Sleep 12000 \<in> set (retryMineBlock addr post 3 12000)"
    by (rule retry_sleeps)
  with mined(3) f0 show ?thesis
    by simp
qed

lemma startMining_sleeps:
  assumes run: "startMining addr d e h = Some (h', evs)"
    and f0: "answers e 0 = Failed msg0" and f1: "answers e 1 = Failed msg1"
  shows "Sleep 12000 \<in> set evs"
proof -
  obtain h1 r evs1 where g: "getPendingTransactions (pending e) h = (h1, r, evs1)"
    by (cases "getPendingTransactions (pending e) h") auto
  show ?thesis
  proof (cases "0 < length (cells h1 r)")
    case True
    with run g obtain h2 evs2 where m: "mineBlock addr d (answers e) h1 r = Some (h2, evs2)"
      and evs: "evs = Log StartingMining # evs1 @ [Log (MiningWithPending (length (cells h1 r)))]
                  @ evs2 @ [Log MiningComplete]"
      by (auto simp: startMining_def split: option.splits)
    from mineBlock_sleeps [OF m f0 f1] evs show ?thesis
      by simp
  next
    case False
    obtain h2 r2 where al: "alloc h1 [] = (h2, r2)"
      by (cases "alloc h1 []") auto
    with False run g obtain h3 evs2 where m: "mineBlock addr d (answers e) h2 r2 = Some (h3, evs2)"
      and evs: "evs = Log StartingMining # evs1 @ [Log NoPendingToMine]
                  @ evs2 @ [Log MiningComplete]"
      by (auto simp: startMining_def split: option.splits)
    from mineBlock_sleeps [OF m f0 f1] evs show ?thesis
      by simp
  qed
qed

lemma startMining_refusing_trace:
  "startMining ''abc123'' 0 refusingEnv emptyHeap =
     Some (\<lparr>cells = (\<lambda>r. [])(0 := [], Suc 0 := [reward ''abc123'']), fresh = 2\<rparr>,
       [Log StartingMining, Log FetchingPending, HttpGet API_URL_PENDING,
        Log NoPendingInResponse, Log NoPendingToMine, Log RequestingBlock, Log AddingReward,
        Log StartingPoW,
        Log (BlockMined 1 (trial_hash (blockHeader ''abc123'' [reward ''abc123''] 0) 1)),
        HttpPost API_URL_MINE
          (JObj [(''minerAddress'', JStr ''abc123''),
                 (''transactions'', JArr [reward ''abc123'']),
                 (''nonce'', JNum 1),
                 (''hash'', JStr (trial_hash (blockHeader ''abc123'' [reward ''abc123''] 0) 1))]),
        Log (ErrorMining ''rejected''), Log RetryingMining,
        Log (RetryAttempt 1), HttpPost API_URL_MINE (retryBody ''abc123''),
        Log (AttemptFailed 1 ''rejected''), Log (RetryingIn 12000), Sleep 12000,
        Log (RetryAttempt 2), HttpPost API_URL_MINE (retryBody ''abc123''),
        Log (AttemptFailed 2 ''rejected''), Log (RetryingIn 12000), Sleep 12000,
        Log (RetryAttempt 3), HttpPost API_URL_MINE (retryBody ''abc123''),
        Log (AttemptFailed 3 ''rejected''), Log AllRetriesFailed,
        Log MiningComplete])"
  by (simp add: startMining_def getPendingTransactions_def alloc_def emptyHeap_def
      refusingEnv_def mineBlock_difficulty_0 retry_all_refused addReward_def push_def
      refuseAll_def)

lemma timeline_Idle: "timeline lat busy ev = Idle n \<Longrightarrow> awaits ev"
  by (cases ev) simp_all

lemma fires_at_await:
  assumes "fireTime due t (map (timeline lat busy) evs) = Some u"
  shows "\<exists>pre ev post. evs = pre @ ev # post \<and> awaits ev
           \<and> t + duration (map (timeline lat busy) pre) \<le> u
           \<and> u \<le> t + duration (map (timeline lat busy) pre) + len (timeline lat busy ev)"
proof -
  from fires_while_waiting [OF assms] obtain pre' n post' where
    s: "map (timeline lat busy) evs = pre' @ Idle n # post'"
    and u: "t + duration pre' \<le> u" "u \<le> t + duration pre' + n"
    by blast
  from s obtain pre rest where e1: "evs = pre @ rest" "map (timeline lat busy) pre = pre'"
    "map (timeline lat busy) rest = Idle n # post'"
    by (auto simp: map_eq_append_conv)
  from e1(3) obtain ev post where e2: "rest = ev # post" "timeline lat busy ev = Idle n"
    by (auto simp: map_eq_Cons_conv)
  from e2(2) have "awaits ev"
    by (rule timeline_Idle)
  with e1 e2 u have "evs = pre @ ev # post \<and> awaits ev
           \<and> t + duration (map (timeline lat busy) pre) \<le> u
           \<and> u \<le> t + duration (map (timeline lat busy) pre) + len (timeline lat busy ev)"
    by simp
  then show ?thesis
    by blast
qed

section \<open>Overlapping rounds (C7)\<close>

text \<open>
  C7, as the code has it: rounds can overlap. Take a round that started at time \<open>t\<close>
  with no other round in flight and the timer due again at most 10000 ms later, and
  whose submission and first retry are refused. Whatever the time of its search and of the service's answers, the timer
  calls \<^verbatim>\<open>startMining\<close> again before that round has finished, because the round
  waits 12000 ms before its second retry. And whenever the timer makes that call during
  a round, the round is waiting at a GET, a POST or a retry delay; the call is never
  made during the synchronous search, which delays it.
\<close>

theorem next_trigger_overlaps:
  "(\<forall>msg0 msg1. startMining addr diff e h \<noteq> None
        \<and> answers e 0 = Failed msg0 \<and> answers e 1 = Failed msg1 \<and> due \<le> t + pollInterval \<longrightarrow>
      (\<exists>u f. nextStart due t lat busy (startMining addr diff e h) = Some u
             \<and> roundEnd t lat busy (startMining addr diff e h) = Some f
             \<and> due \<le> u \<and> t \<le> u \<and> u < f))
   \<and> (\<forall>h' evs u. startMining addr diff e h = Some (h', evs)
        \<and> nextStart due t lat busy (startMining addr diff e h) = Some u \<longrightarrow>
      (\<exists>pre ev post. evs = pre @ ev # post \<and> awaits ev
           \<and> t + duration (map (timeline lat busy) pre) \<le> u
           \<and> u \<le> t + duration (map (timeline lat busy) pre) + len (timeline lat busy ev)))"
proof (rule conjI)
  have "\<exists>u f. nextStart due t lat busy (startMining addr diff e h) = Some u
             \<and> roundEnd t lat busy (startMining addr diff e h) = Some f
             \<and> due \<le> u \<and> t \<le> u \<and> u < f"
    if a: "startMining addr diff e h \<noteq> None
        \<and> answers e 0 = Failed msg0 \<and> answers e 1 = Failed msg1 \<and> due \<le> t + pollInterval"
    for msg0 msg1
  proof -
    from a obtain h' evs where run: "startMining addr diff e h = Some (h', evs)"
      by auto
    from a have f0: "answers e 0 = Failed msg0" and f1: "answers e 1 = Failed msg1"
      and d: "due \<le> t + 10000"
      by (simp_all add: pollInterval_def)
    from startMining_sleeps [OF run f0 f1]
    have "timeline lat busy (Sleep 12000) \<in> timeline lat busy ` set evs"
      by (rule imageI)
    then have "Idle 12000 \<in> set (map (timeline lat busy) evs)"
      by simp
    from fires_before_end [OF this _ d]
    obtain u where "fireTime due t (map (timeline lat busy) evs) = Some u"
      "due \<le> u" "t \<le> u" "u < t + duration (map (timeline lat busy) evs)"
      by auto
    with run have "nextStart due t lat busy (startMining addr diff e h) = Some u
             \<and> roundEnd t lat busy (startMining addr diff e h)
                 = Some (t + duration (map (timeline lat busy) evs))
             \<and> due \<le> u \<and> t \<le> u \<and> u < t + duration (map (timeline lat busy) evs)"
      by (simp add: nextStart_def roundEnd_def)
    then show ?thesis
      by blast
  qed
  then show "\<forall>msg0 msg1. startMining addr diff e h \<noteq> None
        \<and> answers e 0 = Failed msg0 \<and> answers e 1 = Failed msg1 \<and> due \<le> t + pollInterval \<longrightarrow>
      (\<exists>u f. nextStart due t lat busy (startMining addr diff e h) = Some u
             \<and> roundEnd t lat busy (startMining addr diff e h) = Some f
             \<and> due \<le> u \<and> t \<le> u \<and> u < f)"
    by (intro allI impI)
next
  have "\<exists>pre ev post. evs = pre @ ev # post \<and> awaits ev
           \<and> t + duration (map (timeline lat busy) pre) \<le> u
           \<and> u \<le> t + duration (map (timeline lat busy) pre) + len (timeline lat busy ev)"
    if a: "startMining addr diff e h = Some (h', evs)
        \<and> nextStart due t lat busy (startMining addr diff e h) = Some u" for h' evs u
  proof -
    from a have "fireTime due t (map (timeline lat busy) evs) = Some u"
      by (auto simp: nextStart_def)
    then show ?thesis
      by (rule fires_at_await)
  qed
  then show "\<forall>h' evs u. startMining addr diff e h = Some (h', evs)
        \<and> nextStart due t lat busy (startMining addr diff e h) = Some u \<longrightarrow>
      (\<exists>pre ev post. evs = pre @ ev # post \<and> awaits ev
           \<and> t + duration (map (timeline lat busy) pre) \<le> u
           \<and> u \<le> t + duration (map (timeline lat busy) pre) + len (timeline lat busy ev))"
    by (intro allI impI)
qed

theorem next_trigger_overlaps_witness:
  "startMining ''abc123'' 0 refusingEnv emptyHeap \<noteq> None
   \<and> answers refusingEnv 0 = Failed ''rejected'' \<and> answers refusingEnv 1 = Failed ''rejected''
   \<and> (20000::nat) \<le> 10000 + pollInterval
   \<and> (\<exists>u f. nextStart 20000 10000 50 (searchTakes 15000) (startMining ''abc123'' 0 refusingEnv emptyHeap) = Some u
          \<and> roundEnd 10000 50 (searchTakes 15000) (startMining ''abc123'' 0 refusingEnv emptyHeap) = Some f
          \<and> 20000 \<le> u \<and> 10000 \<le> u \<and> u < f)
   \<and> nextStart 20000 10000 50 (searchTakes 15000) (startMining ''abc123'' 0 refusingEnv emptyHeap) = Some 25050
   \<and> roundEnd 10000 50 (searchTakes 15000) (startMining ''abc123'' 0 refusingEnv emptyHeap) = Some 49250
   \<and> (\<exists>h' evs pre ev post. startMining ''abc123'' 0 refusingEnv emptyHeap = Some (h', evs)
          \<and> evs = pre @ ev # post \<and> awaits ev
          \<and> 10000 + duration (map (timeline 50 (searchTakes 15000)) pre) \<le> 25050
          \<and> 25050 \<le> 10000 + duration (map (timeline 50 (searchTakes 15000)) pre)
                       + len (timeline 50 (searchTakes 15000) ev))"
proof -
  obtain h' evs where run: "startMining ''abc123'' 0 refusingEnv emptyHeap = Some (h', evs)"
    by (simp add: startMining_refusing_trace)
  then have ne: "startMining ''abc123'' 0 refusingEnv emptyHeap \<noteq> None"
    by simp
  have a0: "answers refusingEnv 0 = Failed ''rejected''"
    and a1: "answers refusingEnv 1 = Failed ''rejected''"
    by (simp_all add: refusingEnv_def refuseAll_def)
  have d: "(20000::nat) \<le> 10000 + pollInterval"
    by (simp add: pollInterval_def)
  have v1: "nextStart 20000 10000 50 (searchTakes 15000) (startMining ''abc123'' 0 refusingEnv emptyHeap) = Some 25050"
    by (simp add: startMining_refusing_trace nextStart_def searchTakes_def)
  have v2: "roundEnd 10000 50 (searchTakes 15000) (startMining ''abc123'' 0 refusingEnv emptyHeap) = Some 49250"
    by (simp add: startMining_refusing_trace roundEnd_def searchTakes_def)
  note t = next_trigger_overlaps [where addr = "''abc123''" and diff = 0 and e = refusingEnv
      and h = emptyHeap and due = 20000 and t = 10000 and lat = 50
      and busy = "searchTakes 15000"]
  from ne a0 a1 d have "startMining ''abc123'' 0 refusingEnv emptyHeap \<noteq> None
        \<and> answers refusingEnv 0 = Failed ''rejected'' \<and> answers refusingEnv 1 = Failed ''rejected''
        \<and> (20000::nat) \<le> 10000 + pollInterval"
    by (intro conjI)
  from t [THEN conjunct1, THEN spec, THEN spec, THEN mp, OF this]
  have 1: "\<exists>u f. nextStart 20000 10000 50 (searchTakes 15000) (startMining ''abc123'' 0 refusingEnv emptyHeap) = Some u
          \<and> roundEnd 10000 50 (searchTakes 15000) (startMining ''abc123'' 0 refusingEnv emptyHeap) = Some f
          \<and> 20000 \<le> u \<and> 10000 \<le> u \<and> u < f" .
  from run v1 have "startMining ''abc123'' 0 refusingEnv emptyHeap = Some (h', evs)
        \<and> nextStart 20000 10000 50 (searchTakes 15000) (startMining ''abc123'' 0 refusingEnv emptyHeap) = Some 25050"
    by (rule conjI)
  from t [THEN conjunct2, THEN spec, THEN spec, THEN spec, THEN mp, OF this]
  obtain pre ev post where "evs = pre @ ev # post" "awaits ev"
    "10000 + duration (map (timeline 50 (searchTakes 15000)) pre) \<le> 25050"
    "25050 \<le> 10000 + duration (map (timeline 50 (searchTakes 15000)) pre)
                       + len (timeline 50 (searchTakes 15000) ev)"
    by (elim exE conjE)
  with run have 2: "\<exists>h' evs pre ev post. startMining ''abc123'' 0 refusingEnv emptyHeap = Some (h', evs)
          \<and> evs = pre @ ev # post \<and> awaits ev
          \<and> 10000 + duration (map (timeline 50 (searchTakes 15000)) pre) \<le> 25050
          \<and> 25050 \<le> 10000 + duration (map (timeline 50 (searchTakes 15000)) pre)
                       + len (timeline 50 (searchTakes 15000) ev)"
    by (intro exI conjI)
  from ne a0 a1 d 1 v1 v2 2 show ?thesis
    by (intro conjI)
qed

text \<open>
  C7 as stated fails. The service refuses every POST and answers in 50 ms, the search
  takes 3000 ms and the round starts at 10000 ms, when the timer fires for the first
  time. The round finishes at 37250 ms, and at 20000 ms, while it waits for its first
  retry delay, the timer calls \<^verbatim>\<open>startMining\<close> again: the new round is neither skipped
  nor queued.
\<close>

theorem rounds_overlap_counterexample:
  "roundEnd 10000 50 (searchTakes 3000) (startMining ''abc123'' 0 refusingEnv emptyHeap)
     = Some 37250
   \<and> nextStart 20000 10000 50 (searchTakes 3000)
       (startMining ''abc123'' 0 refusingEnv emptyHeap) = Some 20000"
  by (simp add: startMining_refusing_trace roundEnd_def nextStart_def searchTakes_def)

section \<open>The header (C3)\<close>

text \<open>
  C3: the header is the serialization of \<open>minerAddress\<close>, \<open>transactions\<close> and
  \<open>difficulty\<close>, in this order, and of nothing else; equal inputs give the same
  header. The time that \<^verbatim>\<open>startMining\<close> reads from the clock changes nothing of
  what a round does, the submitted hash of the header included.
\<close>

theorem header_deterministic:
  "blockHeader addr txs d =
     ''{'' @ quoteJSON ''minerAddress'' @ '':'' @ quoteJSON addr @ '',''
     @ quoteJSON ''transactions'' @ '':'' @ JSON_stringify (JArr txs) @ '',''
     @ quoteJSON ''difficulty'' @ '':'' @ decimal d @ ''}''
   \<and> (addr' = addr \<and> txs' = txs \<and> d' = d \<longrightarrow>
        blockHeader addr' txs' d' = blockHeader addr txs d)
   \<and> startMining addr d (e\<lparr>clock := c\<rparr>) h = startMining addr d e h"
proof (intro conjI impI)
  show "blockHeader addr txs d =
     ''{'' @ quoteJSON ''minerAddress'' @ '':'' @ quoteJSON addr @ '',''
     @ quoteJSON ''transactions'' @ '':'' @ JSON_stringify (JArr txs) @ '',''
     @ quoteJSON ''difficulty'' @ '':'' @ decimal d @ ''}''"
    by (simp add: blockHeader_def show_int_def)
next
  assume "addr' = addr \<and> txs' = txs \<and> d' = d"
  then show "blockHeader addr' txs' d' = blockHeader addr txs d"
    by simp
next
  have "answers (e\<lparr>clock := c\<rparr>) = answers e" and "pending (e\<lparr>clock := c\<rparr>) = pending e"
    by simp_all
  then show "startMining addr d (e\<lparr>clock := c\<rparr>) h = startMining addr d e h"
    by (simp only: startMining_def Let_def)
qed

lemma quoteJSON_plain:
  "quoteJSON ''minerAddress'' = CHR 0x22 # ''minerAddress'' @ [CHR 0x22]"
  "quoteJSON ''transactions'' = CHR 0x22 # ''transactions'' @ [CHR 0x22]"
  "quoteJSON ''difficulty'' = CHR 0x22 # ''difficulty'' @ [CHR 0x22]"
  "quoteJSON ''abc123'' = CHR 0x22 # ''abc123'' @ [CHR 0x22]"
  by (simp_all add: quoteJSON_def escape_char_def)

theorem header_deterministic_witness:
  \<open>blockHeader ''abc123'' [] 4 = ''{"minerAddress":"abc123","transactions":[],"difficulty":4}''
   \<and> blockHeader ''abc123'' [] 4 = blockHeader ''abc123'' [] 4
   \<and> startMining ''abc123'' 4 (refusingEnv\<lparr>clock := ''2026-11-03T12:00:00.000Z''\<rparr>) emptyHeap
       = startMining ''abc123'' 4 refusingEnv emptyHeap\<close>
proof -
  note t = header_deterministic [where addr = "''abc123''" and addr' = "''abc123''"
      and txs = "[]" and txs' = "[]" and d = 4 and d' = 4 and e = refusingEnv
      and c = "''2026-11-03T12:00:00.000Z''" and h = emptyHeap]
  have d: "decimal 4 = ''4''"
    by (simp add: decimal.simps digit_char_def)
  from t [THEN conjunct1]
  have 1: \<open>blockHeader ''abc123'' [] 4 = ''{"minerAddress":"abc123","transactions":[],"difficulty":4}''\<close>
    by (simp add: quoteJSON_plain d)
  from t [THEN conjunct2, THEN conjunct1]
  have 2: "blockHeader ''abc123'' [] 4 = blockHeader ''abc123'' [] 4"
    by simp
  from 1 2 t [THEN conjunct2, THEN conjunct2] show ?thesis
    by (intro conjI)
qed

end
